theory Spec2Isabelle
  imports Main "HOL-Library.Word" "HOL-Library.Sublist"
begin

section \<open>Strings of the source language\<close>

text \<open>
  The service is TypeScript: a string is a sequence of UTF-16 code units, the empty
  string is the only falsy string, and \<open>String.prototype.trim\<close> strips the code units
  that ECMAScript calls WhiteSpace or LineTerminator from both ends.
\<close>

type_synonym code_unit = "16 word"
type_synonym jsstring = "code_unit list"
type_synonym json = jsstring

definition isWhiteSpace :: "code_unit \<Rightarrow> bool" where
  "isWhiteSpace c =
     (c = 0x0009 \<or> c = 0x000A \<or> c = 0x000B \<or> c = 0x000C \<or> c = 0x000D \<or>
      c = 0x0020 \<or> c = 0x00A0 \<or> c = 0x1680 \<or> (0x2000 \<le> c \<and> c \<le> 0x200A) \<or>
      c = 0x2028 \<or> c = 0x2029 \<or> c = 0x202F \<or> c = 0x205F \<or> c = 0x3000 \<or>
      c = 0xFEFF)"

definition trim :: "jsstring \<Rightarrow> jsstring" where
  "trim s = rev (dropWhile isWhiteSpace (rev (dropWhile isWhiteSpace s)))"

text \<open>An ASCII literal of the source, as code units.\<close>

definition utf16 :: "string \<Rightarrow> jsstring" where
  "utf16 s = map of_char s"

section \<open>Data of the service\<close>

text \<open>
  A thrown value, as far as the service looks at it. It is an \<open>Error\<close> object
  (\<open>instanceof Error\<close>) with its message, or any other value with the outcome of
  \<open>String(error)\<close>, which returns a string or throws (an object without a usable
  \<open>toString\<close>). Either kind also carries what \<open>JSON.stringify(error, null, 2)\<close> throws
  on it, if it throws (a circular structure, a BigInt).
\<close>

datatype thrown =
    ErrorObject jsstring "thrown option"
  | OtherValue "thrown + jsstring" "thrown option"

text \<open>\<open>new Error(message)\<close>; the engine's \<open>TypeError\<close>s are \<open>Error\<close> objects too.\<close>

definition newError :: "jsstring \<Rightarrow> thrown" where
  "newError m = ErrorObject m None"

text \<open>\<open>error instanceof Error ? error.message : String(error)\<close>\<close>

fun errorMessage :: "thrown \<Rightarrow> thrown + jsstring" where
  "errorMessage (ErrorObject m j) = Inr m"
| "errorMessage (OtherValue str j) = str"

text \<open>\<open>error instanceof Error ? error : new Error(String(error))\<close>\<close>

fun asError :: "thrown \<Rightarrow> thrown + thrown" where
  "asError (ErrorObject m j) = Inr (ErrorObject m j)"
| "asError (OtherValue (Inr str) j) = Inr (newError str)"
| "asError (OtherValue (Inl e) j) = Inl e"

text \<open>What \<open>JSON.stringify(error, null, 2)\<close> throws, if it throws.\<close>

fun stringifyThrows :: "thrown \<Rightarrow> thrown option" where
  "stringifyThrows (ErrorObject m j) = j"
| "stringifyThrows (OtherValue str j) = j"

record toolCall =
  call_toolName :: jsstring
  call_args :: json

record toolResult =
  result_toolName :: jsstring
  result_result :: json

text \<open>The step object the SDK hands to \<open>onStepFinish\<close>.\<close>

record step =
  stepText :: jsstring
  toolCalls :: "toolCall list"
  toolResults :: "toolResult list"

text \<open>The events of the \<open>llmservice:\<close> namespace, with their payloads.\<close>

datatype event =
    Thinking
  | Chunk jsstring
  | ToolCall jsstring json
  | ToolResult jsstring json
  | Response jsstring
  | Error thrown
  | ConversationReset
  | ResetAccumulation

datatype message =
    UserMessage jsstring "json option"
  | AssistantMessage jsstring
  | ToolMessage jsstring json

text \<open>
  What the service can change: the log of the events it has emitted on the event bus,
  in emission order, and the history held by the message manager. The streaming
  closure adds its accumulator \<open>currentSegmentText\<close>.
\<close>

record service =
  eventLog :: "event list"
  history :: "message list"

record streaming = service +
  currentSegmentText :: jsstring

definition emit :: "event \<Rightarrow> 'a service_scheme \<Rightarrow> 'a service_scheme" where
  "emit e s = s\<lparr>eventLog := eventLog s @ [e]\<rparr>"

text \<open>
  The message manager (\<open>messages/manager.ts\<close>) is not among the sources; the
  operations that the service calls on the history are modelled from the spec's
  Conversation Store.
\<close>

text \<open>
  Modelled from the spec: \<open>MessageManager.addAssistantMessage\<close> is missing; the spec's
  \<open>appendAssistant(text)\<close> appends an assistant message.
\<close>

definition addAssistantMessage :: "jsstring \<Rightarrow> 'a service_scheme \<Rightarrow> 'a service_scheme" where
  "addAssistantMessage t s = s\<lparr>history := history s @ [AssistantMessage t]\<rparr>"

text \<open>
  Modelled from the spec: \<open>MessageManager.reset\<close> is missing; the spec's \<open>reset()\<close>
  clears all messages atomically and has no other effect.
\<close>

definition reset :: "'a service_scheme \<Rightarrow> 'a service_scheme" where
  "reset s = s\<lparr>history := []\<rparr>"

section \<open>The callbacks of \<open>streamText\<close>\<close>

datatype chunk = TextDelta jsstring | OtherChunk

text \<open>
  The closure of \<open>streamText\<close> holds the accumulator \<open>currentSegmentText\<close> and a counter
  \<open>stepIteration\<close> that is only ever logged; the counter and the logger calls are left
  out of the model.

  \<open>onChunk\<close>: a text delta that is truthy is appended and emitted; nothing else is.
\<close>

definition onChunk :: "chunk \<Rightarrow> streaming \<Rightarrow> streaming" where
  "onChunk c s =
     (case c of
        TextDelta delta \<Rightarrow>
          if delta \<noteq> []
          then emit (Chunk delta) (s\<lparr>currentSegmentText := currentSegmentText s @ delta\<rparr>)
          else s
      | OtherChunk \<Rightarrow> s)"

text \<open>
  \<open>onError\<close> first builds its log line with \<open>JSON.stringify(error, null, 2)\<close>, then
  emits \<open>error instanceof Error ? error : new Error(String(error))\<close>. Either conversion
  can throw; the callback then raises (\<open>Inl\<close>) and nothing has been emitted.
\<close>

definition onError :: "thrown \<Rightarrow> streaming \<Rightarrow> thrown + streaming" where
  "onError error s =
     (case stringifyThrows error of
        Some raised \<Rightarrow> Inl raised
      | None \<Rightarrow>
          (case asError error of
             Inl raised \<Rightarrow> Inl raised
           | Inr err \<Rightarrow> Inr (emit (Error err) s)))"

text \<open>
  \<open>onStepFinish\<close> runs four blocks in order. Each takes and returns the local flag
  \<open>hasHandledThisStep\<close> together with the state.
\<close>

definition flush :: "jsstring \<Rightarrow> streaming \<Rightarrow> streaming" where
  "flush t s = emit (Response t) (addAssistantMessage t s)"

definition handleText :: "step \<Rightarrow> bool \<times> streaming \<Rightarrow> bool \<times> streaming" where
  "handleText st hs =
     (case hs of (hasHandledThisStep, s) \<Rightarrow>
        if stepText st \<noteq> [] \<and> trim (stepText st) \<noteq> []
        then (True, (flush (stepText st) s)\<lparr>currentSegmentText := []\<rparr>)
        else (hasHandledThisStep, s))"

definition emitToolCalls :: "toolCall list \<Rightarrow> streaming \<Rightarrow> streaming" where
  "emitToolCalls cs s =
     foldl (\<lambda>s' c. emit (ToolCall (call_toolName c) (call_args c)) s') s cs"

definition emitToolResults :: "toolResult list \<Rightarrow> streaming \<Rightarrow> streaming" where
  "emitToolResults rs s =
     foldl (\<lambda>s' r. emit (ToolResult (result_toolName r) (result_result r)) s') s rs"

definition handleToolCalls :: "step \<Rightarrow> bool \<times> streaming \<Rightarrow> bool \<times> streaming" where
  "handleToolCalls st hs =
     (case hs of (hasHandledThisStep, s) \<Rightarrow>
        if toolCalls st \<noteq> []
        then
          (let s1 = (if trim (currentSegmentText s) \<noteq> [] \<and> \<not> hasHandledThisStep
                     then flush (currentSegmentText s) s else s);
               s2 = s1\<lparr>currentSegmentText := []\<rparr>;
               s3 = emitToolCalls (toolCalls st) s2
           in (True, emit ResetAccumulation s3))
        else (hasHandledThisStep, s))"

definition handleToolResults :: "step \<Rightarrow> bool \<times> streaming \<Rightarrow> bool \<times> streaming" where
  "handleToolResults st hs =
     (case hs of (hasHandledThisStep, s) \<Rightarrow>
        if toolResults st \<noteq> []
        then (True, (emitToolResults (toolResults st) s)\<lparr>currentSegmentText := []\<rparr>)
        else (hasHandledThisStep, s))"

definition fallback :: "bool \<times> streaming \<Rightarrow> bool \<times> streaming" where
  "fallback hs =
     (case hs of (hasHandledThisStep, s) \<Rightarrow>
        if trim (currentSegmentText s) \<noteq> [] \<and> \<not> hasHandledThisStep
        then (hasHandledThisStep, (flush (currentSegmentText s) s)\<lparr>currentSegmentText := []\<rparr>)
        else (hasHandledThisStep, s))"

definition onStepFinish :: "step \<Rightarrow> streaming \<Rightarrow> streaming" where
  "onStepFinish st s =
     snd (fallback (handleToolResults st (handleToolCalls st (handleText st (False, s)))))"

definition onFinish :: "streaming \<Rightarrow> streaming" where
  "onFinish s =
     (let s1 = (if trim (currentSegmentText s) \<noteq> [] then flush (currentSegmentText s) s else s)
      in s1\<lparr>currentSegmentText := []\<rparr>)"

text \<open>
  The four callbacks are the alphabet of one streaming call. A callback that raises
  hands the raise to the SDK and leaves the service as it was; what the SDK does next
  shows in the callbacks that follow and in how the stream ends.
\<close>

datatype signal = OnChunk chunk | OnError thrown | OnStepFinish step | OnFinish

fun deliver :: "signal \<Rightarrow> streaming \<Rightarrow> streaming" where
  "deliver (OnChunk c) s = onChunk c s"
| "deliver (OnError e) s = (case onError e s of Inl raised \<Rightarrow> s | Inr s' \<Rightarrow> s')"
| "deliver (OnStepFinish st) s = onStepFinish st s"
| "deliver OnFinish s = onFinish s"

fun deliverAll :: "signal list \<Rightarrow> streaming \<Rightarrow> streaming" where
  "deliverAll [] s = s"
| "deliverAll (x # xs) s = deliverAll xs (deliver x s)"

section \<open>The task-level entry points\<close>

subsection \<open>Tools\<close>

text \<open>
  \<open>getAllTools\<close> resolves with a value typed \<open>any\<close>. It is \<open>null\<close> or \<open>undefined\<close>, or a
  tool set: under each name a description and the parameters, a JSON schema.
  \<open>JSON.stringify\<close> turns a value into text or throws on it (a circular structure, a
  BigInt); a value carries which of the two.
\<close>

datatype jsvalue = JsonValue jsstring | NotJson thrown

record tool =
  description :: jsstring
  parameters :: jsvalue

type_synonym vercelToolSet = "(jsstring \<times> tool) list"

datatype tools = Nullish | ToolSet vercelToolSet

text \<open>
  What \<open>JSON.stringify(..., null, 2)\<close> throws on a tool set, if it throws: the error of
  the first parameters it cannot serialise. \<open>null\<close> and \<open>undefined\<close> never throw. The
  formatted tool set holds the same parameters (inside the schema object), so the same
  function serves the second log line.
\<close>

fun toolSetThrows :: "vercelToolSet \<Rightarrow> thrown option" where
  "toolSetThrows [] = None"
| "toolSetThrows ((toolName, t) # ts) =
     (case parameters t of NotJson e \<Rightarrow> Some e | JsonValue v \<Rightarrow> toolSetThrows ts)"

fun toolsThrow :: "tools \<Rightarrow> thrown option" where
  "toolsThrow Nullish = None"
| "toolsThrow (ToolSet ts) = toolSetThrows ts"

text \<open>
  \<open>formatTools\<close> keeps every tool under its name, wraps its parameters in a schema and
  gives it an \<open>execute\<close> closure that forwards to the registry; the closures run inside
  the SDK. \<open>Object.keys\<close> throws a \<open>TypeError\<close> on \<open>null\<close> and \<open>undefined\<close>.
\<close>

fun formatTools :: "tools \<Rightarrow> thrown + vercelToolSet" where
  "formatTools Nullish = Inl (newError (utf16 ''Cannot convert undefined or null to object''))"
| "formatTools (ToolSet ts) =
     Inr (map (\<lambda>(toolName, t). (toolName, \<lparr>description = description t, parameters = parameters t\<rparr>)) ts)"

subsection \<open>Collaborators\<close>

text \<open>
  The service's collaborators (the client manager, the message manager, the AI SDK) are
  parameters of the model. A call that can throw returns a sum, \<open>Inl\<close> carrying the
  thrown value.

  \<^item> \<open>rejectsUserMessage\<close>: what the message manager throws on a user message it does
    not accept, if it throws.
  \<^item> \<open>getAllTools\<close>: the awaited tool listing; it rejects or resolves.
  \<^item> \<open>getFormattedMessages\<close>: the bounded view of the history, together with its log
    line and the token estimate that follow it; they change nothing and any of them
    may throw.
  \<^item> \<open>sdk_generateText\<close>: the SDK's blocking call. It invokes \<open>onStepFinish\<close> for some
    steps and then throws or returns its response.
  \<^item> \<open>processLLMResponse\<close>: appends the response's messages to the history; it may throw.
  \<^item> \<open>sdk_streamText\<close>: the SDK's streaming call. It throws at once, or returns a
    result that is not iterable, or returns a stream whose consumption drives the four
    callbacks and then ends or throws.
\<close>

type_synonym formatted = "message list"

record response =
  responseText :: jsstring

record generation =
  gen_steps :: "step list"
  gen_outcome :: "thrown + response"

datatype consumption = Consumed | IteratorThrows thrown

datatype stream = CallThrows thrown | NotIterable | Iterable "signal list" consumption

record collaborators =
  rejectsUserMessage :: "jsstring \<Rightarrow> json option \<Rightarrow> thrown option"
  getAllTools :: "thrown + tools"
  getFormattedMessages :: "message list \<Rightarrow> thrown + formatted"
  sdk_generateText :: "formatted \<Rightarrow> vercelToolSet \<Rightarrow> int \<Rightarrow> generation"
  processLLMResponse :: "response \<Rightarrow> message list \<Rightarrow> thrown + message list"
  sdk_streamText :: "formatted \<Rightarrow> vercelToolSet \<Rightarrow> int \<Rightarrow> stream"

text \<open>
  Modelled from the spec: \<open>MessageManager.addUserMessage\<close> is missing; the spec's
  \<open>appendUser(text, optionalImage)\<close> appends a user message and never fails on
  well-formed input. Which inputs it does not accept, and what it throws on them, is
  the collaborator \<open>rejectsUserMessage\<close>.
\<close>

definition addUserMessage ::
  "collaborators \<Rightarrow> jsstring \<Rightarrow> json option \<Rightarrow> service \<Rightarrow> thrown + service" where
  "addUserMessage c userInput imageData s =
     (case rejectsUserMessage c userInput imageData of
        Some error \<Rightarrow> Inl error
      | None \<Rightarrow> Inr (s\<lparr>history := history s @ [UserMessage userInput imageData]\<rparr>))"

subsection \<open>Before the \<open>try\<close>, and the \<open>catch\<close>\<close>

text \<open>
  Both entry points begin with the same statements, outside their \<open>try\<close>: add the user
  message, await the tool listing, log it, format it, log the formatted tools. The
  first of them that throws rejects the call. The result is the formatted tool set
  and the state, or the thrown value and the state reached.
\<close>

definition beforeTry ::
  "collaborators \<Rightarrow> jsstring \<Rightarrow> json option \<Rightarrow> service \<Rightarrow> (thrown + vercelToolSet) \<times> service" where
  "beforeTry c userInput imageData s =
     (case addUserMessage c userInput imageData s of
        Inl error \<Rightarrow> (Inl error, s)
      | Inr s0 \<Rightarrow>
          (case getAllTools c of
             Inl error \<Rightarrow> (Inl error, s0)
           | Inr tools \<Rightarrow>
               (case toolsThrow tools of
                  Some error \<Rightarrow> (Inl error, s0)
                | None \<Rightarrow>
                    (case formatTools tools of
                       Inl error \<Rightarrow> (Inl error, s0)
                     | Inr formattedTools \<Rightarrow>
                         (case toolSetThrows formattedTools of
                            Some error \<Rightarrow> (Inl error, s0)
                          | None \<Rightarrow> (Inr formattedTools, s0))))))"

text \<open>
  Both \<open>catch\<close> blocks compute
  \<open>errorMessage = error instanceof Error ? error.message : String(error)\<close>, which can
  throw out of the block, and then emit
  \<open>error instanceof Error ? error : new Error(errorMessage)\<close>. The result is the message
  and the state, or what \<open>String(error)\<close> threw.
\<close>

definition catchBlock :: "thrown \<Rightarrow> service \<Rightarrow> (thrown + jsstring) \<times> service" where
  "catchBlock error s =
     (case errorMessage error of
        Inl raised \<Rightarrow> (Inl raised, s)
      | Inr msg \<Rightarrow>
          (Inr msg,
           emit (Error (case error of ErrorObject m j \<Rightarrow> error | OtherValue str j \<Rightarrow> newError msg)) s))"

subsection \<open>\<open>completeTask\<close>\<close>

text \<open>The \<open>onStepFinish\<close> callback of the blocking call: no history is written here.\<close>

definition generateText_onStepFinish :: "step \<Rightarrow> service \<Rightarrow> service" where
  "generateText_onStepFinish st s =
     (let s1 = (if stepText st \<noteq> [] then emit (Response (stepText st)) s else s);
          s2 = (if toolCalls st \<noteq> []
                then foldl (\<lambda>s' c. emit (ToolCall (call_toolName c) (call_args c)) s') s1 (toolCalls st)
                else s1)
      in if toolResults st \<noteq> []
         then foldl (\<lambda>s' r. emit (ToolResult (result_toolName r) (result_result r)) s') s2 (toolResults st)
         else s2)"

definition generateText ::
  "collaborators \<Rightarrow> formatted \<Rightarrow> vercelToolSet \<Rightarrow> int \<Rightarrow> service \<Rightarrow> (thrown + jsstring) \<times> service" where
  "generateText c messages tools maxSteps s =
     (let g = sdk_generateText c messages tools maxSteps;
          s1 = foldl (\<lambda>s' st. generateText_onStepFinish st s') s (gen_steps g)
      in case gen_outcome g of
           Inl error \<Rightarrow> (Inl error, s1)
         | Inr response \<Rightarrow>
             (case processLLMResponse c response (history s1) of
                Inl error \<Rightarrow> (Inl error, s1)
              | Inr h \<Rightarrow> (Inr (responseText response), s1\<lparr>history := h\<rparr>)))"

definition exhaustedMessage :: jsstring where
  "exhaustedMessage =
     utf16 ''Reached maximum number of tool call iterations without a final response.''"

text \<open>
  The \<open>while (iterationCount < 1)\<close> loop of \<open>completeTask\<close>, with its two locals. It
  returns what the \<open>try\<close> block ends with (a thrown value, or \<open>fullResponse\<close>), the final
  \<open>iterationCount\<close> and the state.
\<close>

function completeTask_loop ::
  "collaborators \<Rightarrow> int \<Rightarrow> vercelToolSet \<Rightarrow> int \<Rightarrow> jsstring \<Rightarrow> service
     \<Rightarrow> (thrown + jsstring) \<times> int \<times> service" where
  "completeTask_loop c maxIterations formattedTools iterationCount fullResponse s =
     (if iterationCount < 1
      then
        (let s1 = emit Thinking s;
             iterationCount' = iterationCount + 1
         in case getFormattedMessages c (history s1) of
              Inl error \<Rightarrow> (Inl error, iterationCount', s1)
            | Inr formattedMessages \<Rightarrow>
                (case generateText c formattedMessages formattedTools maxIterations s1 of
                   (Inl error, s2) \<Rightarrow> (Inl error, iterationCount', s2)
                 | (Inr t, s2) \<Rightarrow>
                     completeTask_loop c maxIterations formattedTools iterationCount' t s2))
      else (Inr fullResponse, iterationCount, s))"
  by pat_completeness auto
termination
  by (relation "measure (\<lambda>(c, m, t, iterationCount, f, s). nat (1 - iterationCount))") auto

text \<open>
  \<open>completeTask\<close>: the promise resolves with a string (\<open>Inr\<close>) or rejects (\<open>Inl\<close>). It
  rejects when a statement before the \<open>try\<close> throws, and when \<open>String(error)\<close> throws
  inside the \<open>catch\<close>.
\<close>

definition completeTask ::
  "collaborators \<Rightarrow> int \<Rightarrow> jsstring \<Rightarrow> json option \<Rightarrow> service \<Rightarrow> (thrown + jsstring) \<times> service" where
  "completeTask c maxIterations userInput imageData s =
     (case beforeTry c userInput imageData s of
        (Inl error, s0) \<Rightarrow> (Inl error, s0)
      | (Inr formattedTools, s0) \<Rightarrow>
          (case completeTask_loop c maxIterations formattedTools 0 [] s0 of
             (Inr fullResponse, n, s1) \<Rightarrow>
               (Inr (if fullResponse \<noteq> [] then fullResponse else exhaustedMessage), s1)
           | (Inl error, n, s1) \<Rightarrow>
               (case catchBlock error s1 of
                  (Inl raised, s2) \<Rightarrow> (Inl raised, s2)
                | (Inr msg, s2) \<Rightarrow> (Inr (utf16 ''Error processing request: '' @ msg), s2))))"

subsection \<open>\<open>completeTaskStreaming\<close>\<close>

text \<open>\<open>streamText\<close> starts every call with an empty accumulator, which ends with the call.\<close>

definition openStream :: "service \<Rightarrow> streaming" where
  "openStream s = \<lparr>eventLog = eventLog s, history = history s, currentSegmentText = []\<rparr>"

definition closeStream :: "streaming \<Rightarrow> service" where
  "closeStream s = \<lparr>eventLog = eventLog s, history = history s\<rparr>"

text \<open>
  \<open>processStream\<close> awaits \<open>streamText\<close> outside its own \<open>try\<close>, then consumes the stream,
  which drives the callbacks. Its \<open>catch\<close> emits
  \<open>error instanceof Error ? error : new Error(String(error))\<close>; when \<open>String(error)\<close>
  throws there, \<open>processStream\<close> rejects with what it threw.
\<close>

definition processStream ::
  "collaborators \<Rightarrow> formatted \<Rightarrow> vercelToolSet \<Rightarrow> int \<Rightarrow> service \<Rightarrow> (thrown + unit) \<times> service" where
  "processStream c messages tools maxSteps s =
     (case sdk_streamText c messages tools maxSteps of
        CallThrows error \<Rightarrow> (Inl error, s)
      | NotIterable \<Rightarrow>
          (Inr (),
           emit (Error (newError (utf16 ''Vercel AI SDK stream is not iterable as expected.''))) s)
      | Iterable signals ending \<Rightarrow>
          (let s1 = closeStream (deliverAll signals (openStream s))
           in case ending of
                Consumed \<Rightarrow> (Inr (), s1)
              | IteratorThrows error \<Rightarrow>
                  (case asError error of
                     Inl raised \<Rightarrow> (Inl raised, s1)
                   | Inr err \<Rightarrow> (Inr (), emit (Error err) s1))))"

text \<open>The \<open>try\<close> block of \<open>completeTaskStreaming\<close>.\<close>

definition completeTaskStreaming_try ::
  "collaborators \<Rightarrow> int \<Rightarrow> vercelToolSet \<Rightarrow> service \<Rightarrow> (thrown + unit) \<times> service" where
  "completeTaskStreaming_try c maxIterations formattedTools s0 =
     (let s1 = emit Thinking s0
      in case getFormattedMessages c (history s1) of
           Inl error \<Rightarrow> (Inl error, s1)
         | Inr formattedMessages \<Rightarrow>
             processStream c formattedMessages formattedTools maxIterations s1)"

definition completeTaskStreaming ::
  "collaborators \<Rightarrow> int \<Rightarrow> jsstring \<Rightarrow> json option \<Rightarrow> service \<Rightarrow> (thrown + unit) \<times> service" where
  "completeTaskStreaming c maxIterations userInput imageData s =
     (case beforeTry c userInput imageData s of
        (Inl error, s0) \<Rightarrow> (Inl error, s0)
      | (Inr formattedTools, s0) \<Rightarrow>
          (case completeTaskStreaming_try c maxIterations formattedTools s0 of
             (Inr u, s2) \<Rightarrow> (Inr (), s2)
           | (Inl error, s2) \<Rightarrow>
               (case catchBlock error s2 of
                  (Inl raised, s3) \<Rightarrow> (Inl raised, s3)
                | (Inr msg, s3) \<Rightarrow> (Inr (), s3))))"

subsection \<open>\<open>resetConversation\<close>\<close>

definition resetConversation :: "service \<Rightarrow> service" where
  "resetConversation s = emit ConversationReset (reset s)"

section \<open>The provider binding of the specification\<close>

text \<open>
  Modelled from the spec: the multi-step loop behind
  \<open>generate(history, toolDescriptors, maxSteps)\<close> is missing (it lives in the SDK's
  \<open>generateText\<close>). By the spec the loop drives up to \<open>maxSteps\<close> generation attempts
  (provider-level steps); an attempt that reports tool calls has them executed and
  their results re-enter the next attempt; the loop ends on an attempt without tool
  calls or on exhaustion of the bound, and the final text is the last attempt's text.
  The \<open>provider\<close> answers one attempt: from the history, the step with its text, its
  tool calls and their results.
\<close>

definition turns :: "step \<Rightarrow> message list" where
  "turns st =
     (if stepText st \<noteq> [] then [AssistantMessage (stepText st)] else []) @
     map (\<lambda>r. ToolMessage (result_toolName r) (result_result r)) (toolResults st)"

function attempts :: "(formatted \<Rightarrow> step) \<Rightarrow> int \<Rightarrow> int \<Rightarrow> formatted \<Rightarrow> step list" where
  "attempts provider maxSteps made messages =
     (if made < maxSteps
      then (if toolCalls (provider messages) \<noteq> []
            then provider messages #
                 attempts provider maxSteps (made + 1) (messages @ turns (provider messages))
            else [provider messages])
      else [])"
  by pat_completeness auto
termination
  by (relation "measure (\<lambda>(provider, maxSteps, made, messages). nat (maxSteps - made))") auto

definition generate :: "(formatted \<Rightarrow> step) \<Rightarrow> formatted \<Rightarrow> vercelToolSet \<Rightarrow> int \<Rightarrow> generation" where
  "generate provider messages tools maxSteps =
     (let sts = attempts provider maxSteps 0 messages
      in \<lparr>gen_steps = sts,
          gen_outcome = Inr \<lparr>responseText = (if sts = [] then [] else stepText (last sts))\<rparr>\<rparr>)"

section \<open>Observations used to state the properties\<close>

text \<open>The events a call has added to the log, and the payloads of the response events.\<close>

definition newEvents :: "'a service_scheme \<Rightarrow> 'b service_scheme \<Rightarrow> event list" where
  "newEvents s s' = drop (length (eventLog s)) (eventLog s')"

fun responses :: "event list \<Rightarrow> jsstring list" where
  "responses [] = []"
| "responses (Response t # es) = t # responses es"
| "responses (e # es) = responses es"

fun isError :: "event \<Rightarrow> bool" where
  "isError (Error e) = True"
| "isError e = False"

fun reportsToolCalls :: "signal \<Rightarrow> bool" where
  "reportsToolCalls (OnStepFinish st) = (toolCalls st \<noteq> [])"
| "reportsToolCalls x = False"

fun deltaText :: "signal list \<Rightarrow> jsstring" where
  "deltaText [] = []"
| "deltaText (OnChunk (TextDelta d) # xs) = d @ deltaText xs"
| "deltaText (x # xs) = deltaText xs"

text \<open>
  Within a run of callbacks: the state in which callback number \<open>k\<close> starts, and the
  responses that callback emits.
\<close>

definition stateBefore :: "nat \<Rightarrow> signal list \<Rightarrow> streaming \<Rightarrow> streaming" where
  "stateBefore k sigs s = deliverAll (take k sigs) s"

definition responsesAt :: "nat \<Rightarrow> signal list \<Rightarrow> streaming \<Rightarrow> jsstring list" where
  "responsesAt k sigs s =
     responses (newEvents (stateBefore k sigs s) (deliver (sigs ! k) (stateBefore k sigs s)))"

text \<open>The \<open>Error\<close> object that \<open>onError\<close> emits for a failure, if it emits one.\<close>

definition reported :: "thrown \<Rightarrow> thrown option" where
  "reported e =
     (case stringifyThrows e of
        Some raised \<Rightarrow> None
      | None \<Rightarrow> (case asError e of Inl raised \<Rightarrow> None | Inr err \<Rightarrow> Some err))"

fun isNotice :: "signal \<Rightarrow> bool" where
  "isNotice (OnStepFinish st) = True"
| "isNotice OnFinish = True"
| "isNotice x = False"

text \<open>The \<open>Error\<close> objects that the \<open>onError\<close> callbacks of a run emit, in order.\<close>

fun reportedBy :: "signal list \<Rightarrow> thrown list" where
  "reportedBy [] = []"
| "reportedBy (OnError e # xs) =
     (case reported e of Some err \<Rightarrow> err # reportedBy xs | None \<Rightarrow> reportedBy xs)"
| "reportedBy (x # xs) = reportedBy xs"

text \<open>
  The \<open>Error\<close> object that a \<open>catch\<close> block emits when the stream ends as given: the
  one of \<open>processStream\<close>, or, when \<open>String(error)\<close> throws there, the one of
  \<open>completeTaskStreaming\<close> for what it threw.
\<close>

definition caughtFrom :: "consumption \<Rightarrow> thrown list" where
  "caughtFrom ending =
     (case ending of
        Consumed \<Rightarrow> []
      | IteratorThrows e \<Rightarrow>
          (case asError e of
             Inr err \<Rightarrow> [err]
           | Inl raised \<Rightarrow> (case asError raised of Inr err \<Rightarrow> [err] | Inl r \<Rightarrow> [])))"

text \<open>What the \<open>onStepFinish\<close> callback of the blocking call emits for one step.\<close>

definition stepEvents :: "step \<Rightarrow> event list" where
  "stepEvents st =
     (if stepText st \<noteq> [] then [Response (stepText st)] else []) @
     map (\<lambda>c. ToolCall (call_toolName c) (call_args c)) (toolCalls st) @
     map (\<lambda>r. ToolResult (result_toolName r) (result_result r)) (toolResults st)"

text \<open>
  A summary of one step-finish notice, for the lemmas below: whether the step reports
  closed text, which text it flushes given the accumulator, and its tool events.
\<close>

definition closedText :: "step \<Rightarrow> bool" where
  "closedText st = (stepText st \<noteq> [] \<and> trim (stepText st) \<noteq> [])"

definition flushed :: "jsstring \<Rightarrow> step \<Rightarrow> jsstring list" where
  "flushed buf st =
     (if closedText st then [stepText st]
      else if trim buf \<noteq> [] \<and> (toolCalls st \<noteq> [] \<or> toolResults st = []) then [buf]
      else [])"

definition callEvents :: "step \<Rightarrow> event list" where
  "callEvents st =
     (if toolCalls st \<noteq> []
      then map (\<lambda>c. ToolCall (call_toolName c) (call_args c)) (toolCalls st) @ [ResetAccumulation]
      else [])"

definition resultEvents :: "step \<Rightarrow> event list" where
  "resultEvents st =
     map (\<lambda>r. ToolResult (result_toolName r) (result_result r)) (toolResults st)"

section \<open>Example collaborators\<close>

text \<open>
  Stubs for concrete runs: a step that calls one tool and gets its result, and
  collaborators that accept every user message, list no tools, and are built from a
  history view, a blocking call and one fixed stream.
\<close>

definition toolStep :: step where
  "toolStep =
     \<lparr>stepText = [],
      toolCalls = [\<lparr>call_toolName = utf16 ''fs.list'', call_args = utf16 ''{}''\<rparr>],
      toolResults = [\<lparr>result_toolName = utf16 ''fs.list'', result_result = utf16 ''[]''\<rparr>]\<rparr>"

definition stubBinding ::
  "(message list \<Rightarrow> thrown + formatted) \<Rightarrow> (formatted \<Rightarrow> vercelToolSet \<Rightarrow> int \<Rightarrow> generation) \<Rightarrow>
     stream \<Rightarrow> collaborators" where
  "stubBinding view gen str =
     \<lparr>rejectsUserMessage = (\<lambda>userInput imageData. None),
      getAllTools = Inr (ToolSet []),
      getFormattedMessages = view,
      sdk_generateText = gen,
      processLLMResponse = (\<lambda>response h. Inr h),
      sdk_streamText = (\<lambda>messages tools maxSteps. str)\<rparr>"

text \<open>A history view that throws the given value.\<close>

fun failingView :: "thrown \<Rightarrow> message list \<Rightarrow> thrown + formatted" where
  "failingView e h = Inl e"

text \<open>A provider that answers every attempt with a tool call and no text.\<close>

definition toolLoop :: "formatted \<Rightarrow> vercelToolSet \<Rightarrow> int \<Rightarrow> generation" where
  "toolLoop = generate (\<lambda>messages. toolStep)"

text \<open>A value that is not an \<open>Error\<close> and on which \<open>String\<close> throws a \<open>TypeError\<close>.\<close>

definition bareObject :: thrown where
  "bareObject =
     OtherValue (Inl (newError (utf16 ''Cannot convert object to primitive value''))) None"

text \<open>A circular object: \<open>String\<close> gives \<open>[object Object]\<close>, \<open>JSON.stringify\<close> throws.\<close>

definition circularObject :: thrown where
  "circularObject =
     OtherValue (Inr (utf16 ''[object Object]''))
       (Some (newError (utf16 ''Converting circular structure to JSON'')))"

section \<open>Lemmas about the callbacks\<close>

lemma dropWhile_keeps:
  "(\<exists>x \<in> set (dropWhile P xs). \<not> P x) \<longleftrightarrow> (\<exists>x \<in> set xs. \<not> P x)"
proof
  assume "\<exists>x \<in> set (dropWhile P xs). \<not> P x"
  then show "\<exists>x \<in> set xs. \<not> P x" by (blast dest: set_dropWhileD)
next
  assume "\<exists>x \<in> set xs. \<not> P x"
  then have ne: "dropWhile P xs \<noteq> []" by (simp add: dropWhile_eq_Nil_conv)
  then have "\<not> P (hd (dropWhile P xs))" by (rule hd_dropWhile)
  moreover from ne have "hd (dropWhile P xs) \<in> set (dropWhile P xs)" by simp
  ultimately show "\<exists>x \<in> set (dropWhile P xs). \<not> P x" by blast
qed

lemma trim_nonempty_iff: "trim s \<noteq> [] \<longleftrightarrow> (\<exists>c \<in> set s. \<not> isWhiteSpace c)"
  by (simp add: trim_def dropWhile_eq_Nil_conv dropWhile_keeps)

lemma trim_Nil [simp]: "trim [] = []"
  by (simp add: trim_def)

lemma eventLog_emitToolCalls [simp]:
  "eventLog (emitToolCalls cs s) =
     eventLog s @ map (\<lambda>c. ToolCall (call_toolName c) (call_args c)) cs"
  unfolding emitToolCalls_def by (induction cs arbitrary: s) (simp_all add: emit_def)

lemma history_emitToolCalls [simp]: "history (emitToolCalls cs s) = history s"
  unfolding emitToolCalls_def by (induction cs arbitrary: s) (simp_all add: emit_def)

lemma buffer_emitToolCalls [simp]:
  "currentSegmentText (emitToolCalls cs s) = currentSegmentText s"
  unfolding emitToolCalls_def by (induction cs arbitrary: s) (simp_all add: emit_def)

lemma eventLog_emitToolResults [simp]:
  "eventLog (emitToolResults rs s) =
     eventLog s @ map (\<lambda>r. ToolResult (result_toolName r) (result_result r)) rs"
  unfolding emitToolResults_def by (induction rs arbitrary: s) (simp_all add: emit_def)

lemma history_emitToolResults [simp]: "history (emitToolResults rs s) = history s"
  unfolding emitToolResults_def by (induction rs arbitrary: s) (simp_all add: emit_def)

lemma buffer_emitToolResults [simp]:
  "currentSegmentText (emitToolResults rs s) = currentSegmentText s"
  unfolding emitToolResults_def by (induction rs arbitrary: s) (simp_all add: emit_def)

lemmas step_defs = onStepFinish_def handleText_def handleToolCalls_def handleToolResults_def
  fallback_def flush_def emit_def addAssistantMessage_def

lemmas eval_defs = onStepFinish_def handleText_def handleToolCalls_def handleToolResults_def
  fallback_def flush_def emit_def addAssistantMessage_def onFinish_def onChunk_def onError_def
  emitToolCalls_def emitToolResults_def newEvents_def trim_def isWhiteSpace_def utf16_def Let_def

lemma onStepFinish_eventLog:
  "eventLog (onStepFinish st s) =
     eventLog s @ map Response (flushed (currentSegmentText s) st) @ callEvents st @ resultEvents st"
  by (simp add: step_defs flushed_def closedText_def callEvents_def resultEvents_def Let_def)

lemma onStepFinish_history:
  "history (onStepFinish st s) =
     history s @ map AssistantMessage (flushed (currentSegmentText s) st)"
  by (simp add: step_defs flushed_def closedText_def Let_def)

lemma onStepFinish_buffer:
  "currentSegmentText (onStepFinish st s) =
     (if closedText st \<or> toolCalls st \<noteq> [] \<or> toolResults st \<noteq> [] \<or>
         trim (currentSegmentText s) \<noteq> []
      then [] else currentSegmentText s)"
  by (simp add: step_defs closedText_def Let_def)

lemma onFinish_eventLog:
  "eventLog (onFinish s) =
     eventLog s @ (if trim (currentSegmentText s) \<noteq> [] then [Response (currentSegmentText s)] else [])"
  by (simp add: onFinish_def flush_def emit_def addAssistantMessage_def Let_def)

lemma onFinish_history:
  "history (onFinish s) =
     history s @ (if trim (currentSegmentText s) \<noteq> [] then [AssistantMessage (currentSegmentText s)] else [])"
  by (simp add: onFinish_def flush_def emit_def addAssistantMessage_def Let_def)

lemma onFinish_buffer [simp]: "currentSegmentText (onFinish s) = []"
  by (simp add: onFinish_def Let_def)

lemma onChunk_eventLog:
  "eventLog (onChunk c s) =
     eventLog s @ (case c of TextDelta d \<Rightarrow> if d \<noteq> [] then [Chunk d] else [] | OtherChunk \<Rightarrow> [])"
  by (simp add: onChunk_def emit_def split: chunk.splits)

lemma onChunk_history [simp]: "history (onChunk c s) = history s"
  by (simp add: onChunk_def emit_def split: chunk.splits)

lemma onChunk_buffer:
  "currentSegmentText (onChunk c s) =
     currentSegmentText s @ (case c of TextDelta d \<Rightarrow> d | OtherChunk \<Rightarrow> [])"
  by (simp add: onChunk_def emit_def split: chunk.splits)

lemma newEvents_app: "eventLog s' = eventLog s @ xs \<Longrightarrow> newEvents s s' = xs"
  by (simp add: newEvents_def)

lemma newEvents_self [simp]: "newEvents s s = []"
  by (simp add: newEvents_def)

lemma responses_append [simp]: "responses (xs @ ys) = responses xs @ responses ys"
  by (induction xs rule: responses.induct) simp_all

lemma responses_map_Response [simp]: "responses (map Response ts) = ts"
  by (induction ts) simp_all

lemma responses_callEvents [simp]: "responses (callEvents st) = []"
proof -
  have *: "responses (map (\<lambda>c. ToolCall (call_toolName c) (call_args c)) cs) = []" for cs
    by (induction cs) simp_all
  show ?thesis by (simp add: callEvents_def *)
qed

lemma responses_resultEvents [simp]: "responses (resultEvents st) = []"
proof -
  have *: "responses (map (\<lambda>r. ToolResult (result_toolName r) (result_result r)) rs) = []" for rs
    by (induction rs) simp_all
  show ?thesis by (simp add: resultEvents_def *)
qed

lemma newEvents_onStepFinish:
  "newEvents s (onStepFinish st s) =
     map Response (flushed (currentSegmentText s) st) @ callEvents st @ resultEvents st"
  by (rule newEvents_app) (rule onStepFinish_eventLog)

lemma newEvents_onFinish:
  "newEvents s (onFinish s) =
     (if trim (currentSegmentText s) \<noteq> [] then [Response (currentSegmentText s)] else [])"
  by (rule newEvents_app) (rule onFinish_eventLog)

lemma newEvents_onChunk:
  "newEvents s (onChunk c s) =
     (case c of TextDelta d \<Rightarrow> if d \<noteq> [] then [Chunk d] else [] | OtherChunk \<Rightarrow> [])"
  by (rule newEvents_app) (rule onChunk_eventLog)

lemma deliver_OnError_eventLog:
  "eventLog (case onError e s of Inl raised \<Rightarrow> s | Inr s' \<Rightarrow> s') =
     eventLog s @ (case reported e of Some err \<Rightarrow> [Error err] | None \<Rightarrow> [])"
  by (simp add: onError_def reported_def emit_def split: option.splits sum.splits)

lemma deliver_OnError_history [simp]:
  "history (case onError e s of Inl raised \<Rightarrow> s | Inr s' \<Rightarrow> s') = history s"
  by (simp add: onError_def emit_def split: option.splits sum.splits)

lemma deliver_OnError_buffer [simp]:
  "currentSegmentText (case onError e s of Inl raised \<Rightarrow> s | Inr s' \<Rightarrow> s') = currentSegmentText s"
  by (simp add: onError_def emit_def split: option.splits sum.splits)

lemma newEvents_onError:
  "newEvents s (case onError e s of Inl raised \<Rightarrow> s | Inr s' \<Rightarrow> s') =
     (case reported e of Some err \<Rightarrow> [Error err] | None \<Rightarrow> [])"
  by (rule newEvents_app) (rule deliver_OnError_eventLog)

lemma deliver_extends: "eventLog (deliver x s) = eventLog s @ newEvents s (deliver x s)"
proof (cases x)
  case (OnChunk c) then show ?thesis by (simp add: newEvents_onChunk onChunk_eventLog)
next
  case (OnError e) then show ?thesis by (simp add: newEvents_onError deliver_OnError_eventLog)
next
  case (OnStepFinish st) then show ?thesis by (simp add: newEvents_onStepFinish onStepFinish_eventLog)
next
  case OnFinish then show ?thesis by (simp add: newEvents_onFinish onFinish_eventLog)
qed

lemma extends_trans:
  assumes "eventLog s1 = eventLog s @ a" and "eventLog s2 = eventLog s1 @ b"
  shows "eventLog s2 = eventLog s @ newEvents s s2" and "newEvents s s2 = a @ b"
proof -
  have "eventLog s2 = eventLog s @ (a @ b)" by (simp only: assms append_assoc)
  then show "newEvents s s2 = a @ b" by (rule newEvents_app)
  with \<open>eventLog s2 = eventLog s @ (a @ b)\<close> show "eventLog s2 = eventLog s @ newEvents s s2"
    by (simp only:)
qed

lemma deliverAll_extends: "eventLog (deliverAll xs s) = eventLog s @ newEvents s (deliverAll xs s)"
proof (induction xs arbitrary: s)
  case Nil show ?case by simp
next
  case (Cons x xs)
  have "eventLog (deliverAll xs (deliver x s)) = eventLog s @ newEvents s (deliverAll xs (deliver x s))"
    by (rule extends_trans(1) [OF deliver_extends Cons.IH])
  then show ?case by (simp only: deliverAll.simps)
qed

lemma newEvents_Cons:
  "newEvents s (deliverAll (x # xs) s) =
     newEvents s (deliver x s) @ newEvents (deliver x s) (deliverAll xs (deliver x s))"
  unfolding deliverAll.simps by (rule extends_trans(2) [OF deliver_extends deliverAll_extends])

lemma deliverAll_append: "deliverAll (xs @ ys) s = deliverAll ys (deliverAll xs s)"
  by (induction xs arbitrary: s) simp_all

lemma newEvents_append:
  "newEvents s (deliverAll (xs @ ys) s) =
     newEvents s (deliverAll xs s) @ newEvents (deliverAll xs s) (deliverAll ys (deliverAll xs s))"
  unfolding deliverAll_append by (rule extends_trans(2) [OF deliverAll_extends deliverAll_extends])

lemma history_deliver:
  "history (deliver x s) = history s @ map AssistantMessage (responses (newEvents s (deliver x s)))"
proof (cases x)
  case (OnChunk c)
  then show ?thesis by (cases c) (simp_all add: newEvents_onChunk)
next
  case (OnError e)
  then show ?thesis by (simp add: newEvents_onError split: option.splits)
next
  case (OnStepFinish st)
  then show ?thesis by (simp add: newEvents_onStepFinish onStepFinish_history)
next
  case OnFinish
  then show ?thesis by (simp add: newEvents_onFinish onFinish_history)
qed

lemma history_deliverAll:
  "history (deliverAll xs s) =
     history s @ map AssistantMessage (responses (newEvents s (deliverAll xs s)))"
proof (induction xs arbitrary: s)
  case Nil
  show ?case by simp
next
  case (Cons x xs)
  show ?case
    using newEvents_Cons [of s x xs] Cons.IH [of "deliver x s"] history_deliver [of x s]
    by simp
qed

lemma chunks_only:
  "responses (newEvents s (deliverAll (map (\<lambda>d. OnChunk (TextDelta d)) ds) s)) = [] \<and>
   currentSegmentText (deliverAll (map (\<lambda>d. OnChunk (TextDelta d)) ds) s) =
     currentSegmentText s @ concat ds"
proof (induction ds arbitrary: s)
  case Nil
  show ?case by simp
next
  case (Cons d ds)
  show ?case
    using Cons.IH [of "onChunk (TextDelta d) s"]
      newEvents_Cons [of s "OnChunk (TextDelta d)" "map (\<lambda>d. OnChunk (TextDelta d)) ds"]
    by (simp add: newEvents_onChunk onChunk_buffer)
qed

lemma count_RA_deliver:
  "count_list (newEvents s (deliver x s)) ResetAccumulation = (if reportsToolCalls x then 1 else 0)"
proof (cases x)
  case (OnChunk c)
  then show ?thesis by (cases c) (simp_all add: newEvents_onChunk)
next
  case (OnError e)
  then show ?thesis by (simp add: newEvents_onError split: option.splits)
next
  case (OnStepFinish st)
  have a: "count_list (map Response ts) ResetAccumulation = 0" for ts
    by (induction ts) simp_all
  have b: "count_list (map (\<lambda>c. ToolCall (call_toolName c) (call_args c)) cs) ResetAccumulation = 0" for cs
    by (induction cs) simp_all
  have c: "count_list (map (\<lambda>r. ToolResult (result_toolName r) (result_result r)) rs) ResetAccumulation = 0" for rs
    by (induction rs) simp_all
  show ?thesis using OnStepFinish
    by (simp add: newEvents_onStepFinish callEvents_def resultEvents_def a b c)
next
  case OnFinish
  then show ?thesis by (simp add: newEvents_onFinish)
qed

lemma count_RA_deliverAll:
  "count_list (newEvents s (deliverAll xs s)) ResetAccumulation = length (filter reportsToolCalls xs)"
proof (induction xs arbitrary: s)
  case Nil
  show ?case by simp
next
  case (Cons x xs)
  show ?case
    using newEvents_Cons [of s x xs] count_RA_deliver [of s x]
    by (simp add: Cons.IH)
qed


lemma stateBefore_0 [simp]: "stateBefore 0 sigs s = s"
  by (simp add: stateBefore_def)

lemma stateBefore_Suc [simp]: "stateBefore (Suc k) (x # xs) s = stateBefore k xs (deliver x s)"
  by (simp add: stateBefore_def)

lemma responsesAt_0 [simp]: "responsesAt 0 (x # xs) s = responses (newEvents s (deliver x s))"
  by (simp add: responsesAt_def)

lemma responsesAt_Suc [simp]: "responsesAt (Suc k) (x # xs) s = responsesAt k xs (deliver x s)"
  by (simp add: responsesAt_def)

text \<open>
  What one callback takes out of the accumulator: nothing, or all of it. A callback
  that emits a response emits one, takes all of the accumulator, and the response is
  the text taken or the step's reported text.
\<close>

lemma deliver_piece:
  "\<exists>p. p @ currentSegmentText (deliver x t) = currentSegmentText t @ deltaText [x] \<and>
       length (responses (newEvents t (deliver x t))) \<le> 1 \<and>
       (responses (newEvents t (deliver x t)) \<noteq> [] \<longrightarrow>
          p = currentSegmentText t \<and>
          (responses (newEvents t (deliver x t)) = [currentSegmentText t] \<or>
           (\<exists>st. x = OnStepFinish st \<and> responses (newEvents t (deliver x t)) = [stepText st])))"
proof (cases x)
  case (OnChunk c)
  then have "[] @ currentSegmentText (deliver x t) = currentSegmentText t @ deltaText [x] \<and>
      responses (newEvents t (deliver x t)) = []"
    by (cases c) (simp_all add: newEvents_onChunk onChunk_buffer)
  then show ?thesis by auto
next
  case (OnError e)
  then have "[] @ currentSegmentText (deliver x t) = currentSegmentText t @ deltaText [x] \<and>
      responses (newEvents t (deliver x t)) = []"
    by (simp add: newEvents_onError split: option.splits)
  then show ?thesis by auto
next
  case (OnStepFinish st)
  show ?thesis
  proof (cases "currentSegmentText (onStepFinish st t) = []")
    case True
    have "currentSegmentText t @ currentSegmentText (deliver x t) =
            currentSegmentText t @ deltaText [x] \<and>
          length (responses (newEvents t (deliver x t))) \<le> 1 \<and>
          (responses (newEvents t (deliver x t)) \<noteq> [] \<longrightarrow>
             (responses (newEvents t (deliver x t)) = [currentSegmentText t] \<or>
              responses (newEvents t (deliver x t)) = [stepText st]))"
      using OnStepFinish True by (simp add: newEvents_onStepFinish flushed_def)
    then show ?thesis using OnStepFinish by blast
  next
    case False
    then have "flushed (currentSegmentText t) st = [] \<and>
               currentSegmentText (onStepFinish st t) = currentSegmentText t"
      by (simp add: onStepFinish_buffer flushed_def split: if_splits)
    then have "[] @ currentSegmentText (deliver x t) = currentSegmentText t @ deltaText [x] \<and>
          responses (newEvents t (deliver x t)) = []"
      using OnStepFinish by (simp add: newEvents_onStepFinish)
    then show ?thesis by auto
  qed
next
  case OnFinish
  then have "currentSegmentText t @ currentSegmentText (deliver x t) =
          currentSegmentText t @ deltaText [x] \<and>
        length (responses (newEvents t (deliver x t))) \<le> 1 \<and>
        (responses (newEvents t (deliver x t)) \<noteq> [] \<longrightarrow>
           responses (newEvents t (deliver x t)) = [currentSegmentText t])"
    by (simp add: newEvents_onFinish)
  then show ?thesis by blast
qed

lemma deltaText_Cons: "deltaText (x # xs) = deltaText [x] @ deltaText xs"
proof (cases x)
  case (OnChunk c)
  then show ?thesis by (cases c) simp_all
qed simp_all

lemma deliverAll_pieces:
  "\<exists>ps. length ps = length sigs \<and>
        concat ps @ currentSegmentText (deliverAll sigs s) = currentSegmentText s @ deltaText sigs \<and>
        (\<forall>k < length sigs.
           length (responsesAt k sigs s) \<le> 1 \<and>
           (responsesAt k sigs s \<noteq> [] \<longrightarrow>
              ps ! k = currentSegmentText (stateBefore k sigs s) \<and>
              (responsesAt k sigs s = [currentSegmentText (stateBefore k sigs s)] \<or>
               (\<exists>st. sigs ! k = OnStepFinish st \<and> responsesAt k sigs s = [stepText st]))))"
proof (induction sigs arbitrary: s)
  case Nil
  show ?case by simp
next
  case (Cons x xs)
  let ?s1 = "deliver x s"
  obtain p where p1: "p @ currentSegmentText ?s1 = currentSegmentText s @ deltaText [x]"
    and p2: "length (responses (newEvents s ?s1)) \<le> 1"
    and p3: "responses (newEvents s ?s1) \<noteq> [] \<longrightarrow>
          p = currentSegmentText s \<and>
          (responses (newEvents s ?s1) = [currentSegmentText s] \<or>
           (\<exists>st. x = OnStepFinish st \<and> responses (newEvents s ?s1) = [stepText st]))"
    using deliver_piece [of x s] by blast
  obtain ps where l: "length ps = length xs"
    and c: "concat ps @ currentSegmentText (deliverAll xs ?s1) = currentSegmentText ?s1 @ deltaText xs"
    and r: "\<forall>k < length xs.
           length (responsesAt k xs ?s1) \<le> 1 \<and>
           (responsesAt k xs ?s1 \<noteq> [] \<longrightarrow>
              ps ! k = currentSegmentText (stateBefore k xs ?s1) \<and>
              (responsesAt k xs ?s1 = [currentSegmentText (stateBefore k xs ?s1)] \<or>
               (\<exists>st. xs ! k = OnStepFinish st \<and> responsesAt k xs ?s1 = [stepText st])))"
    using Cons.IH [of ?s1] by blast
  have len: "length (p # ps) = length (x # xs)"
    using l by simp
  have "concat (p # ps) @ currentSegmentText (deliverAll (x # xs) s) =
          p @ (concat ps @ currentSegmentText (deliverAll xs ?s1))"
    by simp
  also have "\<dots> = (p @ currentSegmentText ?s1) @ deltaText xs"
    by (simp only: c append_assoc)
  also have "\<dots> = currentSegmentText s @ deltaText (x # xs)"
    by (simp only: p1 append_assoc deltaText_Cons [of x xs])
  finally have con: "concat (p # ps) @ currentSegmentText (deliverAll (x # xs) s) =
          currentSegmentText s @ deltaText (x # xs)" .
  have each: "length (responsesAt k (x # xs) s) \<le> 1 \<and>
           (responsesAt k (x # xs) s \<noteq> [] \<longrightarrow>
              (p # ps) ! k = currentSegmentText (stateBefore k (x # xs) s) \<and>
              (responsesAt k (x # xs) s = [currentSegmentText (stateBefore k (x # xs) s)] \<or>
               (\<exists>st. (x # xs) ! k = OnStepFinish st \<and> responsesAt k (x # xs) s = [stepText st])))"
    if "k < length (x # xs)" for k
  proof (cases k)
    case 0
    then show ?thesis using p2 p3 by simp
  next
    case (Suc j)
    with that have "j < length xs" by simp
    with r Suc show ?thesis by simp
  qed
  from len con each show ?case by blast
qed

lemma responses_run:
  "responses (newEvents s (deliverAll sigs s)) =
     concat (map (\<lambda>k. responsesAt k sigs s) [0..<length sigs])"
proof (induction sigs arbitrary: s)
  case Nil
  show ?case by simp
next
  case (Cons x xs)
  have "map (\<lambda>k. responsesAt k (x # xs) s) [0..<length (x # xs)] =
          responsesAt 0 (x # xs) s # map (\<lambda>k. responsesAt (Suc k) (x # xs) s) [0..<length xs]"
    by (simp add: map_upt_Suc del: upt_Suc)
  then show ?case
    using newEvents_Cons [of s x xs] Cons.IH [of "deliver x s"] by simp
qed

section \<open>The claims about the streaming reconciler\<close>

text \<open>
  C10. One step-finish notice emits at most one response event: the closed-text flush,
  the flush before the tool calls and the fallback flush exclude one another, and
  whichever path flushes leaves the accumulator empty.
\<close>

theorem step_finish_at_most_one_response:
  "length (responses (newEvents s (onStepFinish st s))) \<le> 1 \<and>
   (responses (newEvents s (onStepFinish st s)) \<noteq> [] \<longrightarrow>
      currentSegmentText (onStepFinish st s) = [])"
  by (simp add: newEvents_onStepFinish onStepFinish_buffer flushed_def)

theorem step_finish_at_most_one_response_witness:
  "responses (newEvents \<lparr>eventLog = [], history = [], currentSegmentText = utf16 ''abc''\<rparr>
      (onStepFinish \<lparr>stepText = [], toolCalls = [], toolResults = []\<rparr>
         \<lparr>eventLog = [], history = [], currentSegmentText = utf16 ''abc''\<rparr>)) = [utf16 ''abc''] \<and>
   currentSegmentText (onStepFinish \<lparr>stepText = [], toolCalls = [], toolResults = []\<rparr>
         \<lparr>eventLog = [], history = [], currentSegmentText = utf16 ''abc''\<rparr>) = []"
  using step_finish_at_most_one_response
    [of "\<lparr>eventLog = [], history = [], currentSegmentText = utf16 ''abc''\<rparr>"
        "\<lparr>stepText = [], toolCalls = [], toolResults = []\<rparr>"]
  by (simp add: eval_defs)

text \<open>
  C7. A step-finish notice emits \<open>resetAccumulation\<close> if and only if it carries a
  non-empty tool-call batch; over any sequence of callbacks the number of
  \<open>resetAccumulation\<close> events is the number of step-finish notices with tool calls, so
  chunks, errors, the finish notice and text-only steps emit none.
\<close>

theorem resetAccumulation_iff_tool_calls:
  "(ResetAccumulation \<in> set (newEvents s (onStepFinish st s)) \<longleftrightarrow> toolCalls st \<noteq> []) \<and>
   count_list (newEvents s (deliverAll sigs s)) ResetAccumulation =
     length (filter reportsToolCalls sigs)"
proof -
  have "ResetAccumulation \<in> set (newEvents s (onStepFinish st s)) \<longleftrightarrow> toolCalls st \<noteq> []"
    by (auto simp: newEvents_onStepFinish callEvents_def resultEvents_def)
  then show ?thesis by (simp add: count_RA_deliverAll)
qed

theorem resetAccumulation_iff_tool_calls_witness:
  "ResetAccumulation \<in> set (newEvents \<lparr>eventLog = [], history = [], currentSegmentText = []\<rparr>
      (onStepFinish \<lparr>stepText = [], toolCalls = [\<lparr>call_toolName = utf16 ''fs.list'', call_args = utf16 ''{}''\<rparr>],
                     toolResults = []\<rparr>
         \<lparr>eventLog = [], history = [], currentSegmentText = []\<rparr>)) \<and>
   count_list (newEvents \<lparr>eventLog = [], history = [], currentSegmentText = []\<rparr>
      (deliverAll [OnChunk (TextDelta (utf16 ''hi'')),
                   OnStepFinish \<lparr>stepText = utf16 ''hi'', toolCalls = [], toolResults = []\<rparr>,
                   OnFinish]
         \<lparr>eventLog = [], history = [], currentSegmentText = []\<rparr>)) ResetAccumulation = 0"
  using resetAccumulation_iff_tool_calls
    [of "\<lparr>eventLog = [], history = [], currentSegmentText = []\<rparr>"
        "\<lparr>stepText = [], toolCalls = [\<lparr>call_toolName = utf16 ''fs.list'', call_args = utf16 ''{}''\<rparr>],
          toolResults = []\<rparr>"
        "[OnChunk (TextDelta (utf16 ''hi'')),
          OnStepFinish \<lparr>stepText = utf16 ''hi'', toolCalls = [], toolResults = []\<rparr>,
          OnFinish]"]
  by simp

text \<open>
  C6 (as the code has it). \<open>onChunk\<close> appends a text delta to the accumulator and emits
  a chunk event carrying exactly that delta if and only if the delta is non-empty. It
  makes no suffix check: a delta the accumulator already ends with is appended and
  emitted again. The history is not touched.
\<close>

theorem onChunk_buffers_every_nonempty_delta:
  "(delta \<noteq> [] \<longrightarrow>
      newEvents s (onChunk (TextDelta delta) s) = [Chunk delta] \<and>
      currentSegmentText (onChunk (TextDelta delta) s) = currentSegmentText s @ delta \<and>
      history (onChunk (TextDelta delta) s) = history s) \<and>
   (delta = [] \<longrightarrow> onChunk (TextDelta delta) s = s)"
  by (simp add: newEvents_onChunk onChunk_buffer) (simp add: onChunk_def)

theorem onChunk_buffers_every_nonempty_delta_witness:
  "utf16 ''b'' \<noteq> [] \<and>
   newEvents \<lparr>eventLog = [Chunk (utf16 ''ab'')], history = [], currentSegmentText = utf16 ''ab''\<rparr>
     (onChunk (TextDelta (utf16 ''b''))
        \<lparr>eventLog = [Chunk (utf16 ''ab'')], history = [], currentSegmentText = utf16 ''ab''\<rparr>) =
     [Chunk (utf16 ''b'')] \<and>
   onChunk (TextDelta [])
     \<lparr>eventLog = [Chunk (utf16 ''ab'')], history = [], currentSegmentText = utf16 ''ab''\<rparr> =
     \<lparr>eventLog = [Chunk (utf16 ''ab'')], history = [], currentSegmentText = utf16 ''ab''\<rparr>"
  using onChunk_buffers_every_nonempty_delta
    [of "utf16 ''b''"
        "\<lparr>eventLog = [Chunk (utf16 ''ab'')], history = [], currentSegmentText = utf16 ''ab''\<rparr>"]
    onChunk_buffers_every_nonempty_delta
    [of "[]"
        "\<lparr>eventLog = [Chunk (utf16 ''ab'')], history = [], currentSegmentText = utf16 ''ab''\<rparr>"]
  by (simp add: utf16_def)

text \<open>
  The accumulator holds \<open>ab\<close> and the provider sends \<open>b\<close> again: the delta is a suffix
  of the accumulator, and it is still appended and emitted.
\<close>

theorem onChunk_resent_suffix_counterexample:
  "suffix (utf16 ''b'') (utf16 ''ab'') \<and>
   onChunk (TextDelta (utf16 ''b''))
     \<lparr>eventLog = [], history = [], currentSegmentText = utf16 ''ab''\<rparr> =
   \<lparr>eventLog = [Chunk (utf16 ''b'')], history = [], currentSegmentText = utf16 ''abb''\<rparr>"
  by (simp add: onChunk_def emit_def utf16_def suffix_Cons)

text \<open>
  C1 (as the code has it). For every sequence of deltas followed by a step-finish notice
  whose reported text has a character that is not white space, exactly one response
  event is emitted, its payload is the step's reported text, and the history receives
  exactly one new assistant message with that text.
\<close>

theorem closed_text_flushed_exactly_once:
  assumes "trim (stepText st) \<noteq> []"
  shows "responses (newEvents s
           (deliverAll (map (\<lambda>d. OnChunk (TextDelta d)) ds @ [OnStepFinish st]) s)) = [stepText st] \<and>
         history (deliverAll (map (\<lambda>d. OnChunk (TextDelta d)) ds @ [OnStepFinish st]) s) =
           history s @ [AssistantMessage (stepText st)]"
proof -
  let ?xs = "map (\<lambda>d. OnChunk (TextDelta d)) ds"
  let ?s1 = "deliverAll ?xs s"
  from assms have ne: "stepText st \<noteq> []" by auto
  have r1: "responses (newEvents s ?s1) = []" using chunks_only [of s ds] by simp
  have r2: "responses (newEvents ?s1 (deliverAll [OnStepFinish st] ?s1)) = [stepText st]"
    using assms ne by (simp add: newEvents_onStepFinish flushed_def closedText_def)
  have r: "responses (newEvents s (deliverAll (?xs @ [OnStepFinish st]) s)) = [stepText st]"
    by (simp only: newEvents_append responses_append r1 r2 append_Nil)
  show ?thesis
    by (simp only: history_deliverAll [of "?xs @ [OnStepFinish st]" s] r list.map)
qed

theorem closed_text_flushed_exactly_once_witness:
  "trim (utf16 ''I'll check that.'') \<noteq> [] \<and>
   responses (newEvents \<lparr>eventLog = [Thinking], history = [], currentSegmentText = []\<rparr>
     (deliverAll
        (map (\<lambda>d. OnChunk (TextDelta d)) [utf16 ''I'll '', utf16 ''check that.''] @
         [OnStepFinish \<lparr>stepText = utf16 ''I'll check that.'', toolCalls = [], toolResults = []\<rparr>])
        \<lparr>eventLog = [Thinking], history = [], currentSegmentText = []\<rparr>)) =
     [utf16 ''I'll check that.''] \<and>
   history (deliverAll
        (map (\<lambda>d. OnChunk (TextDelta d)) [utf16 ''I'll '', utf16 ''check that.''] @
         [OnStepFinish \<lparr>stepText = utf16 ''I'll check that.'', toolCalls = [], toolResults = []\<rparr>])
        \<lparr>eventLog = [Thinking], history = [], currentSegmentText = []\<rparr>) =
     [AssistantMessage (utf16 ''I'll check that.'')]"
proof -
  have h: "trim (stepText \<lparr>stepText = utf16 ''I'll check that.'', toolCalls = [], toolResults = []\<rparr>) \<noteq> []"
    by (simp add: trim_nonempty_iff utf16_def isWhiteSpace_def)
  show ?thesis
    using h closed_text_flushed_exactly_once [OF h,
        of "\<lparr>eventLog = [Thinking], history = [], currentSegmentText = []\<rparr>"
           "[utf16 ''I'll '', utf16 ''check that.'']"]
    by simp
qed

text \<open>
  A step whose reported text is the single space is not empty, yet nothing is flushed:
  no response event, no assistant message.
\<close>

theorem whitespace_step_text_counterexample:
  "stepText \<lparr>stepText = utf16 '' '', toolCalls = [], toolResults = []\<rparr> \<noteq> [] \<and>
   deliverAll
     [OnChunk (TextDelta (utf16 '' '')),
      OnStepFinish \<lparr>stepText = utf16 '' '', toolCalls = [], toolResults = []\<rparr>]
     \<lparr>eventLog = [], history = [], currentSegmentText = []\<rparr> =
   \<lparr>eventLog = [Chunk (utf16 '' '')], history = [], currentSegmentText = utf16 '' ''\<rparr>"
  by (simp add: eval_defs)

text \<open>
  C2 (as the code has it). When a step-finish notice reports tool calls while the
  accumulator holds a character that is not white space, exactly one response event is
  emitted before every tool-call event of the step; it carries the step's reported
  text when that is not blank, and the accumulated text otherwise. Every step-finish
  notice emits in the order: at most one response, the tool calls (closed by
  \<open>resetAccumulation\<close>), the tool results.
\<close>

theorem response_precedes_tool_calls:
  "(toolCalls st \<noteq> [] \<and> trim (currentSegmentText s) \<noteq> [] \<longrightarrow>
      newEvents s (onStepFinish st s) =
        Response (if trim (stepText st) \<noteq> [] then stepText st else currentSegmentText s) #
        map (\<lambda>c. ToolCall (call_toolName c) (call_args c)) (toolCalls st) @
        ResetAccumulation #
        map (\<lambda>r. ToolResult (result_toolName r) (result_result r)) (toolResults st)) \<and>
   (\<exists>ts. length ts \<le> 1 \<and>
      newEvents s (onStepFinish st s) =
        map Response ts @
        map (\<lambda>c. ToolCall (call_toolName c) (call_args c)) (toolCalls st) @
        (if toolCalls st \<noteq> [] then [ResetAccumulation] else []) @
        map (\<lambda>r. ToolResult (result_toolName r) (result_result r)) (toolResults st))"
proof -
  have nb: "trim t \<noteq> [] \<Longrightarrow> t \<noteq> []" for t by auto
  have a: "toolCalls st \<noteq> [] \<and> trim (currentSegmentText s) \<noteq> [] \<longrightarrow>
      newEvents s (onStepFinish st s) =
        Response (if trim (stepText st) \<noteq> [] then stepText st else currentSegmentText s) #
        map (\<lambda>c. ToolCall (call_toolName c) (call_args c)) (toolCalls st) @
        ResetAccumulation #
        map (\<lambda>r. ToolResult (result_toolName r) (result_result r)) (toolResults st)"
    by (auto simp: newEvents_onStepFinish flushed_def closedText_def callEvents_def resultEvents_def)
  have "length (flushed (currentSegmentText s) st) \<le> 1 \<and>
      newEvents s (onStepFinish st s) =
        map Response (flushed (currentSegmentText s) st) @
        map (\<lambda>c. ToolCall (call_toolName c) (call_args c)) (toolCalls st) @
        (if toolCalls st \<noteq> [] then [ResetAccumulation] else []) @
        map (\<lambda>r. ToolResult (result_toolName r) (result_result r)) (toolResults st)"
    by (simp add: newEvents_onStepFinish flushed_def callEvents_def resultEvents_def)
  then have b: "\<exists>ts. length ts \<le> 1 \<and>
      newEvents s (onStepFinish st s) =
        map Response ts @
        map (\<lambda>c. ToolCall (call_toolName c) (call_args c)) (toolCalls st) @
        (if toolCalls st \<noteq> [] then [ResetAccumulation] else []) @
        map (\<lambda>r. ToolResult (result_toolName r) (result_result r)) (toolResults st)"
    by blast
  from a b show ?thesis by (rule conjI)
qed

theorem response_precedes_tool_calls_witness:
  "toolCalls \<lparr>stepText = [], toolCalls = [\<lparr>call_toolName = utf16 ''fs.list'', call_args = utf16 ''{}''\<rparr>],
              toolResults = [\<lparr>result_toolName = utf16 ''fs.list'', result_result = utf16 ''[]''\<rparr>]\<rparr> \<noteq> [] \<and>
   trim (currentSegmentText \<lparr>eventLog = [], history = [], currentSegmentText = utf16 ''I'll check.''\<rparr>) \<noteq> [] \<and>
   newEvents \<lparr>eventLog = [], history = [], currentSegmentText = utf16 ''I'll check.''\<rparr>
     (onStepFinish
        \<lparr>stepText = [], toolCalls = [\<lparr>call_toolName = utf16 ''fs.list'', call_args = utf16 ''{}''\<rparr>],
          toolResults = [\<lparr>result_toolName = utf16 ''fs.list'', result_result = utf16 ''[]''\<rparr>]\<rparr>
        \<lparr>eventLog = [], history = [], currentSegmentText = utf16 ''I'll check.''\<rparr>) =
     [Response (utf16 ''I'll check.''), ToolCall (utf16 ''fs.list'') (utf16 ''{}''), ResetAccumulation,
      ToolResult (utf16 ''fs.list'') (utf16 ''[]'')]"
proof -
  have h: "trim (utf16 ''I'll check.'') \<noteq> []"
    by (simp add: trim_nonempty_iff utf16_def isWhiteSpace_def)
  show ?thesis
    using h response_precedes_tool_calls
      [of "\<lparr>stepText = [], toolCalls = [\<lparr>call_toolName = utf16 ''fs.list'', call_args = utf16 ''{}''\<rparr>],
            toolResults = [\<lparr>result_toolName = utf16 ''fs.list'', result_result = utf16 ''[]''\<rparr>]\<rparr>"
          "\<lparr>eventLog = [], history = [], currentSegmentText = utf16 ''I'll check.''\<rparr>"]
    by simp
qed

text \<open>
  Two steps with tool calls and a non-empty accumulator. In the first the provider has
  sent a single space before the call: no response is emitted at all. In the second the
  step reports text of its own, and the response carries that text, not the
  accumulator's.
\<close>

theorem buffered_text_before_tool_calls_counterexample:
  "currentSegmentText \<lparr>eventLog = [], history = [], currentSegmentText = utf16 '' ''\<rparr> \<noteq> [] \<and>
   newEvents \<lparr>eventLog = [], history = [], currentSegmentText = utf16 '' ''\<rparr>
     (onStepFinish
        \<lparr>stepText = utf16 '' '', toolCalls = [\<lparr>call_toolName = utf16 ''t'', call_args = utf16 ''{}''\<rparr>],
          toolResults = []\<rparr>
        \<lparr>eventLog = [], history = [], currentSegmentText = utf16 '' ''\<rparr>) =
     [ToolCall (utf16 ''t'') (utf16 ''{}''), ResetAccumulation] \<and>
   newEvents \<lparr>eventLog = [], history = [], currentSegmentText = utf16 ''a''\<rparr>
     (onStepFinish
        \<lparr>stepText = utf16 ''b'', toolCalls = [\<lparr>call_toolName = utf16 ''t'', call_args = utf16 ''{}''\<rparr>], toolResults = []\<rparr>
        \<lparr>eventLog = [], history = [], currentSegmentText = utf16 ''a''\<rparr>) =
     [Response (utf16 ''b''), ToolCall (utf16 ''t'') (utf16 ''{}''), ResetAccumulation]"
  by (simp add: eval_defs)

text \<open>
  C3 (as the code has it). The accumulated text is flushed (appended to the history and
  emitted as a response event) when a tool-call batch arrives with no closed text of
  the step's own, or when the stream completes, provided the accumulated text holds a
  character that is not white space. After a tool-call batch or stream completion
  the accumulator is empty. No range of deltas is emitted twice: over any sequence of
  callbacks the delta stream is cut into consecutive pieces, one per callback, and a
  callback that emits a response emits exactly one, takes as its piece everything
  accumulated at that point, and emits that piece or the step's reported text in its
  place; the responses of the run are those of its callbacks, in order.
\<close>

theorem buffer_flushed_never_duplicated:
  "(toolCalls st \<noteq> [] \<and> trim (currentSegmentText s) \<noteq> [] \<and> trim (stepText st) = [] \<longrightarrow>
      responses (newEvents s (onStepFinish st s)) = [currentSegmentText s] \<and>
      history (onStepFinish st s) = history s @ [AssistantMessage (currentSegmentText s)]) \<and>
   (trim (currentSegmentText s) \<noteq> [] \<longrightarrow>
      newEvents s (onFinish s) = [Response (currentSegmentText s)] \<and>
      history (onFinish s) = history s @ [AssistantMessage (currentSegmentText s)]) \<and>
   (toolCalls st \<noteq> [] \<longrightarrow> currentSegmentText (onStepFinish st s) = []) \<and>
   currentSegmentText (onFinish s) = [] \<and>
   responses (newEvents s (deliverAll sigs s)) =
     concat (map (\<lambda>k. responsesAt k sigs s) [0..<length sigs]) \<and>
   (\<exists>ps. length ps = length sigs \<and>
         concat ps @ currentSegmentText (deliverAll sigs s) = currentSegmentText s @ deltaText sigs \<and>
         (\<forall>k < length sigs.
            length (responsesAt k sigs s) \<le> 1 \<and>
            (responsesAt k sigs s \<noteq> [] \<longrightarrow>
               ps ! k = currentSegmentText (stateBefore k sigs s) \<and>
               (responsesAt k sigs s = [currentSegmentText (stateBefore k sigs s)] \<or>
                (\<exists>st. sigs ! k = OnStepFinish st \<and> responsesAt k sigs s = [stepText st])))))"
proof -
  have a: "toolCalls st \<noteq> [] \<and> trim (currentSegmentText s) \<noteq> [] \<and> trim (stepText st) = [] \<longrightarrow>
      responses (newEvents s (onStepFinish st s)) = [currentSegmentText s] \<and>
      history (onStepFinish st s) = history s @ [AssistantMessage (currentSegmentText s)]"
    by (simp add: newEvents_onStepFinish onStepFinish_history flushed_def closedText_def)
  have b: "trim (currentSegmentText s) \<noteq> [] \<longrightarrow>
      newEvents s (onFinish s) = [Response (currentSegmentText s)] \<and>
      history (onFinish s) = history s @ [AssistantMessage (currentSegmentText s)]"
    by (simp add: newEvents_onFinish onFinish_history)
  have c: "toolCalls st \<noteq> [] \<longrightarrow> currentSegmentText (onStepFinish st s) = []"
    by (simp add: onStepFinish_buffer)
  have d: "currentSegmentText (onFinish s) = []"
    by simp
  from a b c d responses_run [of s sigs] deliverAll_pieces [of sigs s] show ?thesis
    by (intro conjI)
qed

theorem buffer_flushed_never_duplicated_witness:
  "toolCalls \<lparr>stepText = [], toolCalls = [\<lparr>call_toolName = utf16 ''t'', call_args = utf16 ''{}''\<rparr>], toolResults = []\<rparr> \<noteq> [] \<and>
   trim (utf16 ''abc'') \<noteq> [] \<and>
   responses (newEvents \<lparr>eventLog = [], history = [], currentSegmentText = utf16 ''abc''\<rparr>
     (onStepFinish
        \<lparr>stepText = [], toolCalls = [\<lparr>call_toolName = utf16 ''t'', call_args = utf16 ''{}''\<rparr>], toolResults = []\<rparr>
        \<lparr>eventLog = [], history = [], currentSegmentText = utf16 ''abc''\<rparr>)) = [utf16 ''abc''] \<and>
   history (onStepFinish
        \<lparr>stepText = [], toolCalls = [\<lparr>call_toolName = utf16 ''t'', call_args = utf16 ''{}''\<rparr>], toolResults = []\<rparr>
        \<lparr>eventLog = [], history = [], currentSegmentText = utf16 ''abc''\<rparr>) = [AssistantMessage (utf16 ''abc'')] \<and>
   currentSegmentText (onStepFinish
        \<lparr>stepText = [], toolCalls = [\<lparr>call_toolName = utf16 ''t'', call_args = utf16 ''{}''\<rparr>], toolResults = []\<rparr>
        \<lparr>eventLog = [], history = [], currentSegmentText = utf16 ''abc''\<rparr>) = [] \<and>
   newEvents \<lparr>eventLog = [], history = [], currentSegmentText = utf16 ''abc''\<rparr>
     (onFinish \<lparr>eventLog = [], history = [], currentSegmentText = utf16 ''abc''\<rparr>) = [Response (utf16 ''abc'')] \<and>
   history (onFinish \<lparr>eventLog = [], history = [], currentSegmentText = utf16 ''abc''\<rparr>) =
     [AssistantMessage (utf16 ''abc'')] \<and>
   responses (newEvents \<lparr>eventLog = [], history = [], currentSegmentText = utf16 ''abc''\<rparr>
     (deliverAll
        [OnChunk (TextDelta (utf16 ''de'')), OnFinish, OnChunk (TextDelta (utf16 ''fg'')), OnFinish]
        \<lparr>eventLog = [], history = [], currentSegmentText = utf16 ''abc''\<rparr>)) =
     [utf16 ''abcde'', utf16 ''fg''] \<and>
   responsesAt 1
     [OnChunk (TextDelta (utf16 ''de'')), OnFinish, OnChunk (TextDelta (utf16 ''fg'')), OnFinish]
     \<lparr>eventLog = [], history = [], currentSegmentText = utf16 ''abc''\<rparr> = [utf16 ''abcde'']"
proof -
  have h: "trim (utf16 ''abc'') \<noteq> []"
    by (simp add: trim_nonempty_iff utf16_def isWhiteSpace_def)
  have r: "responsesAt 1
     [OnChunk (TextDelta (utf16 ''de'')), OnFinish, OnChunk (TextDelta (utf16 ''fg'')), OnFinish]
     \<lparr>eventLog = [], history = [], currentSegmentText = utf16 ''abc''\<rparr> = [utf16 ''abcde'']"
    by (simp add: responsesAt_def stateBefore_def eval_defs)
  have k: "(1::nat) <
     length [OnChunk (TextDelta (utf16 ''de'')), OnFinish, OnChunk (TextDelta (utf16 ''fg'')), OnFinish]"
    by simp
  show ?thesis
    using h r k buffer_flushed_never_duplicated
      [of "\<lparr>stepText = [], toolCalls = [\<lparr>call_toolName = utf16 ''t'', call_args = utf16 ''{}''\<rparr>], toolResults = []\<rparr>"
          "\<lparr>eventLog = [], history = [], currentSegmentText = utf16 ''abc''\<rparr>"
          "[OnChunk (TextDelta (utf16 ''de'')), OnFinish, OnChunk (TextDelta (utf16 ''fg'')), OnFinish]"]
    by (simp add: eval_defs)
qed

text \<open>
  The stream completes while the accumulator holds a single space: the accumulator is
  not empty, nothing is emitted or stored, and the text is discarded.
\<close>

theorem whitespace_buffer_dropped_counterexample:
  "currentSegmentText \<lparr>eventLog = [], history = [], currentSegmentText = utf16 '' ''\<rparr> \<noteq> [] \<and>
   onFinish \<lparr>eventLog = [], history = [], currentSegmentText = utf16 '' ''\<rparr> =
     \<lparr>eventLog = [], history = [], currentSegmentText = []\<rparr>"
  by (simp add: eval_defs)

section \<open>Lemmas about the entry points\<close>

lemma openStream_simps [simp]:
  "eventLog (openStream s) = eventLog s"
  "history (openStream s) = history s"
  "currentSegmentText (openStream s) = []"
  by (simp_all add: openStream_def)

lemma closeStream_simps [simp]:
  "eventLog (closeStream t) = eventLog t"
  "history (closeStream t) = history t"
  by (simp_all add: closeStream_def)

lemma emit_simps [simp]:
  "eventLog (emit e s) = eventLog s @ [e]"
  "history (emit e s) = history s"
  by (simp_all add: emit_def)

lemma beforeTry_Inr:
  "beforeTry c u i s = (Inr tools, s0) \<Longrightarrow> s0 = s\<lparr>history := history s @ [UserMessage u i]\<rparr>"
  by (auto simp: beforeTry_def addUserMessage_def split: sum.splits option.splits)

lemma beforeTry_state:
  assumes "beforeTry c u i s = (Inr tools, s0)"
  shows "eventLog s0 = eventLog s" and "history s0 = history s @ [UserMessage u i]"
  using beforeTry_Inr [OF assms] by simp_all

lemma catchBlock_cases:
  "catchBlock e s =
     (case errorMessage e of
        Inl raised \<Rightarrow> (Inl raised, s)
      | Inr msg \<Rightarrow>
          (Inr msg, emit (Error (case e of ErrorObject m j \<Rightarrow> e | OtherValue str j \<Rightarrow> newError msg)) s))"
  by (simp add: catchBlock_def)

lemma caught_message:
  "errorMessage e = Inr msg \<Longrightarrow>
     errorMessage (case e of ErrorObject m j \<Rightarrow> e | OtherValue str j \<Rightarrow> newError msg) = Inr msg"
  by (cases e) (simp_all add: newError_def)

declare completeTask_loop.simps [simp del]
declare attempts.simps [simp del]

lemma loop_exit: "completeTask_loop c m t 1 f s = (Inr f, 1, s)"
  by (subst completeTask_loop.simps) simp

lemma loop_once:
  "completeTask_loop c m t 0 f s =
     (case getFormattedMessages c (history (emit Thinking s)) of
        Inl error \<Rightarrow> (Inl error, 1, emit Thinking s)
      | Inr formattedMessages \<Rightarrow>
          (case generateText c formattedMessages t m (emit Thinking s) of
             (Inl error, s2) \<Rightarrow> (Inl error, 1, s2)
           | (Inr r, s2) \<Rightarrow> (Inr r, 1, s2)))"
  by (subst completeTask_loop.simps) (simp add: loop_exit Let_def split: sum.splits prod.splits)

lemma generateText_onStepFinish_eventLog:
  "eventLog (generateText_onStepFinish st s) = eventLog s @ stepEvents st"
proof -
  have a: "eventLog (foldl (\<lambda>s' c. emit (ToolCall (call_toolName c) (call_args c)) s') s0 cs) =
        eventLog s0 @ map (\<lambda>c. ToolCall (call_toolName c) (call_args c)) cs" for cs and s0 :: service
    by (induction cs arbitrary: s0) simp_all
  have b: "eventLog (foldl (\<lambda>s' r. emit (ToolResult (result_toolName r) (result_result r)) s') s0 rs) =
        eventLog s0 @ map (\<lambda>r. ToolResult (result_toolName r) (result_result r)) rs" for rs and s0 :: service
    by (induction rs arbitrary: s0) simp_all
  show ?thesis
    by (simp add: generateText_onStepFinish_def stepEvents_def Let_def a b)
qed

lemma generateText_onStepFinish_history [simp]:
  "history (generateText_onStepFinish st s) = history s"
proof -
  have a: "history (foldl (\<lambda>s' c. emit (ToolCall (call_toolName c) (call_args c)) s') s0 cs) =
        history s0" for cs and s0 :: service
    by (induction cs arbitrary: s0) simp_all
  have b: "history (foldl (\<lambda>s' r. emit (ToolResult (result_toolName r) (result_result r)) s') s0 rs) =
        history s0" for rs and s0 :: service
    by (induction rs arbitrary: s0) simp_all
  show ?thesis
    by (simp add: generateText_onStepFinish_def Let_def a b)
qed

lemma steps_eventLog:
  "eventLog (foldl (\<lambda>s' st. generateText_onStepFinish st s') s sts) =
     eventLog s @ concat (map stepEvents sts)"
  by (induction sts arbitrary: s) (simp_all add: generateText_onStepFinish_eventLog)

lemma steps_history [simp]:
  "history (foldl (\<lambda>s' st. generateText_onStepFinish st s') s sts) = history s"
  by (induction sts arbitrary: s) simp_all

lemma generateText_eventLog:
  "eventLog (snd (generateText c fm t m s)) =
     eventLog s @ concat (map stepEvents (gen_steps (sdk_generateText c fm t m)))"
  by (simp add: generateText_def Let_def steps_eventLog split: sum.splits)

text \<open>
  The loop of the specification's binding. While the provider keeps asking for tools
  and never says anything, it makes as many attempts as the bound leaves, none with
  text.
\<close>

lemma attempts_tool_loop:
  assumes "\<forall>messages. toolCalls (provider messages) \<noteq> [] \<and> stepText (provider messages) = []"
  shows "length (attempts provider maxSteps made messages) = nat (maxSteps - made) \<and>
         (\<forall>st \<in> set (attempts provider maxSteps made messages). stepText st = [])"
  using assms
proof (induction provider maxSteps made messages rule: attempts.induct)
  case (1 provider maxSteps made messages)
  show ?case
  proof (cases "made < maxSteps")
    case True
    from "1.prems" have tc: "toolCalls (provider messages) \<noteq> []"
      and tx: "stepText (provider messages) = []"
      by simp_all
    have ih: "length (attempts provider maxSteps (made + 1) (messages @ turns (provider messages))) =
          nat (maxSteps - (made + 1)) \<and>
        (\<forall>st \<in> set (attempts provider maxSteps (made + 1) (messages @ turns (provider messages))).
           stepText st = [])"
      using "1.IH" [OF True tc] "1.prems" by simp
    have "nat (maxSteps - made) = Suc (nat (maxSteps - (made + 1)))"
      using True by simp
    with ih tc tx True show ?thesis
      by (subst attempts.simps, subst (2) attempts.simps) simp
  next
    case False
    then show ?thesis
      by (subst attempts.simps, subst (2) attempts.simps) simp
  qed
qed

lemma generate_tool_loop:
  assumes "\<forall>messages. toolCalls (provider messages) \<noteq> [] \<and> stepText (provider messages) = []"
  shows "length (gen_steps (generate provider messages tools maxSteps)) = nat maxSteps"
    and "gen_outcome (generate provider messages tools maxSteps) = Inr \<lparr>responseText = []\<rparr>"
proof -
  let ?sts = "attempts provider maxSteps 0 messages"
  from attempts_tool_loop [OF assms, of maxSteps 0 messages]
  have len: "length ?sts = nat maxSteps" and silent: "\<forall>st \<in> set ?sts. stepText st = []"
    by simp_all
  show "length (gen_steps (generate provider messages tools maxSteps)) = nat maxSteps"
    using len by (simp add: generate_def Let_def)
  have "?sts \<noteq> [] \<Longrightarrow> stepText (last ?sts) = []"
    using silent by simp
  then show "gen_outcome (generate provider messages tools maxSteps) = Inr \<lparr>responseText = []\<rparr>"
    by (auto simp: generate_def Let_def)
qed

lemmas stub_defs = stubBinding_def toolLoop_def toolStep_def beforeTry_def addUserMessage_def
  generateText_def generateText_onStepFinish_def exhaustedMessage_def generate_def turns_def
  catchBlock_def newError_def


text \<open>The two \<open>catch\<close> blocks emit what \<open>processStream\<close> would: the error as an \<open>Error\<close>.\<close>

lemma catchBlock_asError:
  "catchBlock e s =
     (case asError e of
        Inl raised \<Rightarrow> (Inl raised, s)
      | Inr err \<Rightarrow> (errorMessage e, emit (Error err) s))"
proof (cases e)
  case (ErrorObject m j)
  then show ?thesis by (simp add: catchBlock_def)
next
  case (OtherValue str j)
  then show ?thesis by (cases str) (simp_all add: catchBlock_def)
qed

lemma asError_errorMessage:
  "(\<exists>err. asError e = Inr err) \<longleftrightarrow> (\<exists>msg. errorMessage e = Inr msg)"
proof (cases e)
  case (ErrorObject m j)
  then show ?thesis by simp
next
  case (OtherValue str j)
  then show ?thesis by (cases str) simp_all
qed

lemma asError_message: "asError e = Inr err \<Longrightarrow> errorMessage err = errorMessage e"
proof (cases e)
  case (ErrorObject m j)
  assume "asError e = Inr err"
  with ErrorObject show ?thesis by auto
next
  case (OtherValue str j)
  assume "asError e = Inr err"
  with OtherValue show ?thesis by (cases str) (auto simp: newError_def)
qed

lemma reportedBy_Cons: "reportedBy (x # xs) = reportedBy [x] @ reportedBy xs"
  by (cases x) (simp_all split: option.splits)

lemma reportedBy_append: "reportedBy (xs @ ys) = reportedBy xs @ reportedBy ys"
proof (induction xs)
  case Nil
  show ?case by simp
next
  case (Cons x xs)
  have "reportedBy ((x # xs) @ ys) = reportedBy [x] @ reportedBy (xs @ ys)"
    using reportedBy_Cons [of x "xs @ ys"] by simp
  also have "\<dots> = reportedBy [x] @ reportedBy xs @ reportedBy ys"
    by (simp only: Cons.IH)
  also have "\<dots> = reportedBy (x # xs) @ reportedBy ys"
    using reportedBy_Cons [of x xs] by simp
  finally show ?case .
qed

lemma errors_callEvents [simp]: "filter isError (callEvents st) = []"
  by (auto simp: callEvents_def filter_empty_conv)

lemma errors_resultEvents [simp]: "filter isError (resultEvents st) = []"
  by (auto simp: resultEvents_def filter_empty_conv)

lemma errors_Response [simp]: "filter isError (map Response ts) = []"
  by (auto simp: filter_empty_conv)

lemma errors_deliver:
  "filter isError (newEvents t (deliver x t)) = map Error (reportedBy [x])"
proof (cases x)
  case (OnChunk c)
  then show ?thesis by (cases c) (simp_all add: newEvents_onChunk)
next
  case (OnError e)
  then show ?thesis by (simp add: newEvents_onError split: option.splits)
next
  case (OnStepFinish st)
  then show ?thesis by (simp add: newEvents_onStepFinish)
next
  case OnFinish
  then show ?thesis by (simp add: newEvents_onFinish)
qed

lemma errors_deliverAll:
  "filter isError (newEvents t (deliverAll xs t)) = map Error (reportedBy xs)"
proof (induction xs arbitrary: t)
  case Nil
  show ?case by simp
next
  case (Cons x xs)
  have "filter isError (newEvents t (deliverAll (x # xs) t)) =
      filter isError (newEvents t (deliver x t)) @
      filter isError (newEvents (deliver x t) (deliverAll xs (deliver x t)))"
    using newEvents_Cons [of t x xs] by simp
  also have "\<dots> = map Error (reportedBy [x]) @ map Error (reportedBy xs)"
    by (simp only: errors_deliver Cons.IH)
  also have "\<dots> = map Error (reportedBy (x # xs))"
    using reportedBy_Cons [of x xs] by simp
  finally show ?case .
qed

text \<open>Only the step-finish and finish notices flush: nothing else emits a response.\<close>

lemma quiet_deliver: "\<not> isNotice x \<Longrightarrow> responses (newEvents t (deliver x t)) = []"
proof (cases x)
  case (OnChunk c)
  then show ?thesis by (cases c) (simp_all add: newEvents_onChunk)
next
  case (OnError e)
  then show ?thesis by (simp add: newEvents_onError split: option.splits)
next
  case (OnStepFinish st)
  assume "\<not> isNotice x"
  with OnStepFinish show ?thesis by simp
next
  case OnFinish
  assume "\<not> isNotice x"
  with OnFinish show ?thesis by simp
qed

lemma quiet_deliverAll:
  "\<forall>x \<in> set xs. \<not> isNotice x \<Longrightarrow> responses (newEvents t (deliverAll xs t)) = []"
proof (induction xs arbitrary: t)
  case Nil
  show ?case by simp
next
  case (Cons x xs)
  from Cons.prems have a: "responses (newEvents t (deliver x t)) = []"
    by (intro quiet_deliver) simp
  from Cons.prems have b: "responses (newEvents (deliver x t) (deliverAll xs (deliver x t))) = []"
    by (intro Cons.IH) simp
  show ?case
    using newEvents_Cons [of t x xs] a b by simp
qed

lemma stream_run:
  "eventLog (deliverAll sigs (openStream s1)) =
     eventLog s1 @ newEvents (openStream s1) (deliverAll sigs (openStream s1))"
  "history (deliverAll sigs (openStream s1)) =
     history s1 @ map AssistantMessage (responses (newEvents (openStream s1) (deliverAll sigs (openStream s1))))"
  using deliverAll_extends [of sigs "openStream s1"] history_deliverAll [of sigs "openStream s1"]
  by simp_all

lemma responses_Errors [simp]: "responses (map Error es) = []"
  by (induction es) simp_all

text \<open>
  What one streaming task does to the service once the statements before the \<open>try\<close>
  have passed: in every case it adds events to the log and to the history one
  assistant message for each response among them.
\<close>

lemma try_shape:
  "\<exists>ev. eventLog (snd (completeTaskStreaming_try c m tools s0)) = eventLog s0 @ ev \<and>
        history (snd (completeTaskStreaming_try c m tools s0)) =
          history s0 @ map AssistantMessage (responses ev)"
proof (cases "getFormattedMessages c (history s0)")
  case (Inl e)
  then have "eventLog (snd (completeTaskStreaming_try c m tools s0)) = eventLog s0 @ [Thinking] \<and>
      history (snd (completeTaskStreaming_try c m tools s0)) =
        history s0 @ map AssistantMessage (responses [Thinking])"
    by (simp add: completeTaskStreaming_try_def Let_def)
  then show ?thesis by blast
next
  case (Inr fm)
  let ?s1 = "emit Thinking s0"
  have body: "completeTaskStreaming_try c m tools s0 = processStream c fm tools m ?s1"
    using Inr by (simp add: completeTaskStreaming_try_def Let_def)
  show ?thesis
  proof (cases "sdk_streamText c fm tools m")
    case (CallThrows e)
    then have "eventLog (snd (processStream c fm tools m ?s1)) = eventLog s0 @ [Thinking] \<and>
        history (snd (processStream c fm tools m ?s1)) =
          history s0 @ map AssistantMessage (responses [Thinking])"
      by (simp add: processStream_def)
    then show ?thesis unfolding body by blast
  next
    case NotIterable
    let ?e = "Error (newError (utf16 ''Vercel AI SDK stream is not iterable as expected.''))"
    from NotIterable have "eventLog (snd (processStream c fm tools m ?s1)) = eventLog s0 @ [Thinking, ?e] \<and>
        history (snd (processStream c fm tools m ?s1)) =
          history s0 @ map AssistantMessage (responses [Thinking, ?e])"
      by (simp add: processStream_def)
    then show ?thesis unfolding body by blast
  next
    case (Iterable sigs ending)
    let ?t = "deliverAll sigs (openStream ?s1)"
    let ?N = "newEvents (openStream ?s1) ?t"
    let ?tail = "case ending of Consumed \<Rightarrow> []
                 | IteratorThrows e \<Rightarrow> (case asError e of Inl raised \<Rightarrow> [] | Inr err \<Rightarrow> [Error err])"
    have log_t: "eventLog ?t = eventLog s0 @ Thinking # ?N"
      using stream_run(1) [of sigs ?s1] by simp
    have hist_t: "history ?t = history s0 @ map AssistantMessage (responses ?N)"
      using stream_run(2) [of sigs ?s1] by simp
    have "eventLog (snd (processStream c fm tools m ?s1)) = eventLog s0 @ (Thinking # ?N @ ?tail) \<and>
        history (snd (processStream c fm tools m ?s1)) =
          history s0 @ map AssistantMessage (responses (Thinking # ?N @ ?tail))"
      using Iterable log_t hist_t
      by (simp add: processStream_def Let_def split: consumption.splits sum.splits)
    then show ?thesis unfolding body by blast
  qed
qed

lemma streaming_shape:
  assumes "beforeTry c u i s = (Inr tools, s0)"
  shows "\<exists>ev. eventLog (snd (completeTaskStreaming c m u i s)) = eventLog s @ ev \<and>
          history (snd (completeTaskStreaming c m u i s)) =
            history s @ UserMessage u i # map AssistantMessage (responses ev)"
proof -
  obtain r s2 where body: "completeTaskStreaming_try c m tools s0 = (r, s2)"
    by (cases "completeTaskStreaming_try c m tools s0")
  from try_shape [of c m tools s0] body obtain ev where
    log2: "eventLog s2 = eventLog s0 @ ev" and
    hist2: "history s2 = history s0 @ map AssistantMessage (responses ev)"
    by auto
  let ?tail = "case r of Inr u \<Rightarrow> []
               | Inl e \<Rightarrow> (case asError e of Inl raised \<Rightarrow> [] | Inr err \<Rightarrow> [Error err])"
  have "eventLog (snd (completeTaskStreaming c m u i s)) = eventLog s2 @ ?tail \<and>
      history (snd (completeTaskStreaming c m u i s)) = history s2"
    using assms body
    by (simp add: completeTaskStreaming_def catchBlock_asError split: sum.splits)
  then have "eventLog (snd (completeTaskStreaming c m u i s)) = eventLog s @ (ev @ ?tail) \<and>
      history (snd (completeTaskStreaming c m u i s)) =
        history s @ UserMessage u i # map AssistantMessage (responses (ev @ ?tail))"
    using log2 hist2 beforeTry_state [OF assms]
    by (simp split: sum.splits)
  then show ?thesis by blast
qed

text \<open>The same for a stream that is consumed: which events, exactly.\<close>

lemma streaming_run:
  assumes before: "beforeTry c u i s = (Inr tools, s0)"
    and view: "getFormattedMessages c (history s0) = Inr fm"
    and str: "sdk_streamText c fm tools m = Iterable sigs ending"
  shows "newEvents s (snd (completeTaskStreaming c m u i s)) =
           Thinking # newEvents (openStream (emit Thinking s0)) (deliverAll sigs (openStream (emit Thinking s0))) @
           map Error (caughtFrom ending)"
proof -
  let ?s1 = "emit Thinking s0"
  let ?t = "deliverAll sigs (openStream ?s1)"
  let ?N = "newEvents (openStream ?s1) ?t"
  have log_t: "eventLog ?t = eventLog s @ Thinking # ?N"
    using stream_run(1) [of sigs ?s1] beforeTry_state(1) [OF before] by simp
  have body: "completeTaskStreaming_try c m tools s0 = processStream c fm tools m ?s1"
    using view by (simp add: completeTaskStreaming_try_def Let_def)
  have "eventLog (snd (completeTaskStreaming c m u i s)) =
      eventLog s @ (Thinking # ?N @ map Error (caughtFrom ending))"
    using before str log_t
    by (simp add: completeTaskStreaming_def body processStream_def catchBlock_asError caughtFrom_def Let_def
          split: consumption.splits sum.splits)
  then show ?thesis by (rule newEvents_app)
qed

lemma reported_in:
  "OnError e \<in> set sigs \<Longrightarrow> reported e = Some err \<Longrightarrow> err \<in> set (reportedBy sigs)"
proof (induction sigs)
  case Nil
  then show ?case by simp
next
  case (Cons x xs)
  show ?case
  proof (cases "x = OnError e")
    case True
    with Cons.prems show ?thesis by simp
  next
    case False
    with Cons.prems have "err \<in> set (reportedBy xs)"
      by (intro Cons.IH) simp_all
    then show ?thesis
      using reportedBy_Cons [of x xs] by simp
  qed
qed

lemma completeTask_resolves:
  "(\<exists>t s'. completeTask c m u i s = (Inr t, s')) \<longleftrightarrow>
     (\<exists>tools s0. beforeTry c u i s = (Inr tools, s0) \<and>
        (\<forall>e. fst (completeTask_loop c m tools 0 [] s0) = Inl e \<longrightarrow> (\<exists>msg. errorMessage e = Inr msg)))"
proof -
  obtain r0 s0 where b: "beforeTry c u i s = (r0, s0)"
    by (cases "beforeTry c u i s")
  show ?thesis
  proof (cases r0)
    case (Inl e)
    with b show ?thesis by (simp add: completeTask_def)
  next
    case (Inr tools)
    obtain r n s1 where l: "completeTask_loop c m tools 0 [] s0 = (r, n, s1)"
      by (cases "completeTask_loop c m tools 0 [] s0")
    show ?thesis
    proof (cases r)
      case (Inl e)
      with b Inr l show ?thesis
        by (cases "errorMessage e") (simp_all add: completeTask_def catchBlock_def)
    next
      case r: (Inr t)
      with b Inr l show ?thesis by (simp add: completeTask_def)
    qed
  qed
qed

lemma completeTaskStreaming_resolves:
  "(\<exists>s'. completeTaskStreaming c m u i s = (Inr (), s')) \<longleftrightarrow>
     (\<exists>tools s0. beforeTry c u i s = (Inr tools, s0) \<and>
        (\<forall>e. fst (completeTaskStreaming_try c m tools s0) = Inl e \<longrightarrow> (\<exists>msg. errorMessage e = Inr msg)))"
proof -
  obtain r0 s0 where b: "beforeTry c u i s = (r0, s0)"
    by (cases "beforeTry c u i s")
  show ?thesis
  proof (cases r0)
    case (Inl e)
    with b show ?thesis by (simp add: completeTaskStreaming_def)
  next
    case (Inr tools)
    obtain r s2 where l: "completeTaskStreaming_try c m tools s0 = (r, s2)"
      by (cases "completeTaskStreaming_try c m tools s0")
    show ?thesis
    proof (cases r)
      case (Inl e)
      with b Inr l show ?thesis
        by (cases "errorMessage e") (simp_all add: completeTaskStreaming_def catchBlock_def)
    next
      case r: (Inr t)
      with b Inr l show ?thesis by (simp add: completeTaskStreaming_def)
    qed
  qed
qed

lemma completeTask_reports:
  assumes "beforeTry c u i s = (Inr tools, s0)"
    and "fst (completeTask_loop c m tools 0 [] s0) = Inl e"
    and "errorMessage e = Inr msg"
  shows "fst (completeTask c m u i s) = Inr (utf16 ''Error processing request: '' @ msg) \<and>
         (\<exists>err. errorMessage err = Inr msg \<and>
            eventLog (snd (completeTask c m u i s)) =
              eventLog (snd (snd (completeTask_loop c m tools 0 [] s0))) @ [Error err])"
proof -
  obtain n s1 where l: "completeTask_loop c m tools 0 [] s0 = (Inl e, n, s1)"
    using assms(2) by (cases "completeTask_loop c m tools 0 [] s0") auto
  let ?err = "case e of ErrorObject m j \<Rightarrow> e | OtherValue str j \<Rightarrow> newError msg"
  have "errorMessage ?err = Inr msg"
    using assms(3) by (rule caught_message)
  moreover have "completeTask c m u i s =
      (Inr (utf16 ''Error processing request: '' @ msg), emit (Error ?err) s1)"
    using assms(1,3) l by (simp add: completeTask_def catchBlock_def)
  ultimately show ?thesis
    using l by auto
qed

lemma completeTaskStreaming_reports:
  assumes "beforeTry c u i s = (Inr tools, s0)"
    and "fst (completeTaskStreaming_try c m tools s0) = Inl e"
    and "errorMessage e = Inr msg"
  shows "\<exists>err. errorMessage err = Inr msg \<and>
            eventLog (snd (completeTaskStreaming c m u i s)) =
              eventLog (snd (completeTaskStreaming_try c m tools s0)) @ [Error err]"
proof -
  obtain s2 where l: "completeTaskStreaming_try c m tools s0 = (Inl e, s2)"
    using assms(2) by (cases "completeTaskStreaming_try c m tools s0") auto
  let ?err = "case e of ErrorObject m j \<Rightarrow> e | OtherValue str j \<Rightarrow> newError msg"
  have "errorMessage ?err = Inr msg"
    using assms(3) by (rule caught_message)
  moreover have "completeTaskStreaming c m u i s = (Inr (), emit (Error ?err) s2)"
    using assms(1,3) l by (simp add: completeTaskStreaming_def catchBlock_def)
  ultimately show ?thesis
    using l by auto
qed

lemma onError_reaches_log:
  assumes before: "beforeTry c u i s = (Inr tools, s0)"
    and view: "getFormattedMessages c (history s0) = Inr fm"
    and str: "sdk_streamText c fm tools m = Iterable sigs ending"
    and sig: "OnError e \<in> set sigs"
    and rep: "reported e = Some err"
  shows "Error err \<in> set (newEvents s (snd (completeTaskStreaming c m u i s)))"
proof -
  let ?t0 = "openStream (emit Thinking s0)"
  let ?N = "newEvents ?t0 (deliverAll sigs ?t0)"
  have "Error err \<in> set (map Error (reportedBy sigs))"
    using reported_in [OF sig rep] by simp
  then have "Error err \<in> set (filter isError ?N)"
    by (simp only: errors_deliverAll)
  then have "Error err \<in> set ?N"
    by simp
  then show ?thesis
    by (simp add: streaming_run [OF before view str])
qed

lemma iterator_throw_last:
  assumes before: "beforeTry c u i s = (Inr tools, s0)"
    and view: "getFormattedMessages c (history s0) = Inr fm"
    and str: "sdk_streamText c fm tools m = Iterable sigs (IteratorThrows e)"
    and err: "asError e = Inr err"
  shows "last (newEvents s (snd (completeTaskStreaming c m u i s))) = Error err"
  using err by (simp add: streaming_run [OF before view str] caughtFrom_def)

lemma not_iterable_last:
  assumes before: "beforeTry c u i s = (Inr tools, s0)"
    and view: "getFormattedMessages c (history s0) = Inr fm"
    and str: "sdk_streamText c fm tools m = NotIterable"
  shows "newEvents s (snd (completeTaskStreaming c m u i s)) =
           [Thinking, Error (newError (utf16 ''Vercel AI SDK stream is not iterable as expected.''))]"
proof -
  have "eventLog (snd (completeTaskStreaming c m u i s)) =
      eventLog s @ [Thinking, Error (newError (utf16 ''Vercel AI SDK stream is not iterable as expected.''))]"
    using before view str beforeTry_state(1) [OF before]
    by (simp add: completeTaskStreaming_def completeTaskStreaming_try_def processStream_def Let_def)
  then show ?thesis by (rule newEvents_app)
qed

lemma error_position:
  assumes before: "beforeTry c u i s = (Inr tools, s0)"
    and view: "getFormattedMessages c (history s0) = Inr fm"
    and str: "sdk_streamText c fm tools m = Iterable sigs ending"
    and split: "sigs = front @ OnError e # rest"
    and rep: "reported e = Some err"
  shows "\<exists>pre post. newEvents s (snd (completeTaskStreaming c m u i s)) = pre @ Error err # post \<and>
           filter isError pre = map Error (reportedBy front) \<and>
           ((\<forall>x \<in> set rest. \<not> isNotice x) \<longrightarrow> responses post = [])"
proof -
  let ?t0 = "openStream (emit Thinking s0)"
  let ?t1 = "deliverAll front ?t0"
  let ?t2 = "deliver (OnError e) ?t1"
  let ?pre = "Thinking # newEvents ?t0 ?t1"
  let ?post = "newEvents ?t2 (deliverAll rest ?t2) @ map Error (caughtFrom ending)"
  have a: "newEvents ?t0 (deliverAll sigs ?t0) =
      newEvents ?t0 ?t1 @ newEvents ?t1 (deliverAll (OnError e # rest) ?t1)"
    unfolding split by (rule newEvents_append)
  have b: "newEvents ?t1 (deliverAll (OnError e # rest) ?t1) =
      newEvents ?t1 ?t2 @ newEvents ?t2 (deliverAll rest ?t2)"
    by (rule newEvents_Cons)
  have c: "newEvents ?t1 ?t2 = [Error err]"
    using rep by (simp add: newEvents_onError)
  have new: "newEvents s (snd (completeTaskStreaming c m u i s)) = ?pre @ Error err # ?post"
    by (simp only: streaming_run [OF before view str] a b c) simp
  have pre: "filter isError ?pre = map Error (reportedBy front)"
    by (simp add: errors_deliverAll)
  have post: "(\<forall>x \<in> set rest. \<not> isNotice x) \<longrightarrow> responses ?post = []"
    by (simp add: quiet_deliverAll)
  from new pre post show ?thesis by blast
qed

lemmas run_defs = completeTask_def completeTaskStreaming_def completeTaskStreaming_try_def
  processStream_def beforeTry_def addUserMessage_def catchBlock_def loop_once generateText_def
  stubBinding_def openStream_def closeStream_def toolStep_def newError_def reported_def
  caughtFrom_def bareObject_def circularObject_def

text \<open>
  \<open>onError\<close> on a circular object: the log line throws before the emit, so the callback
  raises and no event is emitted.
\<close>

lemma onError_circular:
  "onError circularObject s = Inl (newError (utf16 ''Converting circular structure to JSON'')) \<and>
   newEvents s (deliver (OnError circularObject) s) = []"
  by (simp add: onError_def circularObject_def)

section \<open>The claims about the entry points\<close>







text \<open>
  C8 (as the code has it). In a streaming task whose stream is consumed, the error
  events are, in order, one for every \<open>onError\<close> callback whose value the service can
  report and then one if consuming the stream throws: exactly one error event when the
  provider's failure reaches the service on exactly one of these paths. When the
  iterator throws, the error event is the last event. After the error event of an
  \<open>onError\<close> callback no response follows unless a step-finish or finish notice is
  delivered after it. In every streaming task the history holds the user message and
  then one assistant message for each response emitted, so every segment flushed
  before the failure stays in the store.
\<close>

theorem provider_throw_error_events:
  assumes before: "beforeTry c u i s = (Inr tools, s0)"
  shows "history (snd (completeTaskStreaming c m u i s)) =
           history s @ UserMessage u i #
             map AssistantMessage (responses (newEvents s (snd (completeTaskStreaming c m u i s)))) \<and>
         (\<forall>fm sigs ending.
            getFormattedMessages c (history s0) = Inr fm \<and>
            sdk_streamText c fm tools m = Iterable sigs ending \<longrightarrow>
            filter isError (newEvents s (snd (completeTaskStreaming c m u i s))) =
              map Error (reportedBy sigs @ caughtFrom ending) \<and>
            (\<forall>e err. ending = IteratorThrows e \<and> asError e = Inr err \<longrightarrow>
               last (newEvents s (snd (completeTaskStreaming c m u i s))) = Error err) \<and>
            (\<forall>front e rest err. sigs = front @ OnError e # rest \<and> reported e = Some err \<longrightarrow>
               (\<exists>pre post.
                  newEvents s (snd (completeTaskStreaming c m u i s)) = pre @ Error err # post \<and>
                  filter isError pre = map Error (reportedBy front) \<and>
                  ((\<forall>x \<in> set rest. \<not> isNotice x) \<longrightarrow> responses post = []))))"
proof -
  let ?F = "snd (completeTaskStreaming c m u i s)"
  from streaming_shape [OF before, of m] obtain ev where
    log: "eventLog ?F = eventLog s @ ev" and
    hist: "history ?F = history s @ UserMessage u i # map AssistantMessage (responses ev)"
    by blast
  from log have "newEvents s ?F = ev"
    by (rule newEvents_app)
  with hist have store: "history ?F =
      history s @ UserMessage u i # map AssistantMessage (responses (newEvents s ?F))"
    by simp
  have run: "\<forall>fm sigs ending.
      getFormattedMessages c (history s0) = Inr fm \<and>
      sdk_streamText c fm tools m = Iterable sigs ending \<longrightarrow>
      filter isError (newEvents s ?F) = map Error (reportedBy sigs @ caughtFrom ending) \<and>
      (\<forall>e err. ending = IteratorThrows e \<and> asError e = Inr err \<longrightarrow> last (newEvents s ?F) = Error err) \<and>
      (\<forall>front e rest err. sigs = front @ OnError e # rest \<and> reported e = Some err \<longrightarrow>
         (\<exists>pre post. newEvents s ?F = pre @ Error err # post \<and>
            filter isError pre = map Error (reportedBy front) \<and>
            ((\<forall>x \<in> set rest. \<not> isNotice x) \<longrightarrow> responses post = [])))"
  proof (intro allI impI, elim conjE)
    fix fm sigs ending
    assume view: "getFormattedMessages c (history s0) = Inr fm"
      and str: "sdk_streamText c fm tools m = Iterable sigs ending"
    have r1: "filter isError (newEvents s ?F) = map Error (reportedBy sigs @ caughtFrom ending)"
      by (simp add: streaming_run [OF before view str] errors_deliverAll)
    have r2: "\<forall>e err. ending = IteratorThrows e \<and> asError e = Inr err \<longrightarrow>
        last (newEvents s ?F) = Error err"
    proof (intro allI impI, elim conjE)
      fix e err
      assume "ending = IteratorThrows e" and err: "asError e = Inr err"
      with str have "sdk_streamText c fm tools m = Iterable sigs (IteratorThrows e)"
        by simp
      then show "last (newEvents s ?F) = Error err"
        using err by (intro iterator_throw_last [OF before view])
    qed
    have r3: "\<forall>front e rest err. sigs = front @ OnError e # rest \<and> reported e = Some err \<longrightarrow>
        (\<exists>pre post. newEvents s ?F = pre @ Error err # post \<and>
           filter isError pre = map Error (reportedBy front) \<and>
           ((\<forall>x \<in> set rest. \<not> isNotice x) \<longrightarrow> responses post = []))"
    proof (intro allI impI, elim conjE)
      fix front e rest err
      assume "sigs = front @ OnError e # rest" "reported e = Some err"
      then show "\<exists>pre post. newEvents s ?F = pre @ Error err # post \<and>
          filter isError pre = map Error (reportedBy front) \<and>
          ((\<forall>x \<in> set rest. \<not> isNotice x) \<longrightarrow> responses post = [])"
        by (rule error_position [OF before view str])
    qed
    from r1 r2 r3 show "filter isError (newEvents s ?F) = map Error (reportedBy sigs @ caughtFrom ending) \<and>
      (\<forall>e err. ending = IteratorThrows e \<and> asError e = Inr err \<longrightarrow> last (newEvents s ?F) = Error err) \<and>
      (\<forall>front e rest err. sigs = front @ OnError e # rest \<and> reported e = Some err \<longrightarrow>
         (\<exists>pre post. newEvents s ?F = pre @ Error err # post \<and>
            filter isError pre = map Error (reportedBy front) \<and>
            ((\<forall>x \<in> set rest. \<not> isNotice x) \<longrightarrow> responses post = [])))"
      by (intro conjI)
  qed
  from store run show ?thesis
    by (rule conjI)
qed

theorem provider_throw_error_events_witness:
  "filter isError (newEvents \<lparr>eventLog = [], history = []\<rparr>
     (snd (completeTaskStreaming
        (stubBinding Inr toolLoop
           (Iterable
              [OnChunk (TextDelta (utf16 ''ab'')),
               OnStepFinish \<lparr>stepText = utf16 ''ab'', toolCalls = [], toolResults = []\<rparr>,
               OnChunk (TextDelta (utf16 ''cd'')),
               OnError (newError (utf16 ''socket closed'')),
               OnChunk (TextDelta (utf16 ''ef''))]
              Consumed))
        3 (utf16 ''hi'') None \<lparr>eventLog = [], history = []\<rparr>))) =
     [Error (newError (utf16 ''socket closed''))] \<and>
   (\<exists>pre post.
      newEvents \<lparr>eventLog = [], history = []\<rparr>
        (snd (completeTaskStreaming
           (stubBinding Inr toolLoop
              (Iterable
                 [OnChunk (TextDelta (utf16 ''ab'')),
                  OnStepFinish \<lparr>stepText = utf16 ''ab'', toolCalls = [], toolResults = []\<rparr>,
                  OnChunk (TextDelta (utf16 ''cd'')),
                  OnError (newError (utf16 ''socket closed'')),
                  OnChunk (TextDelta (utf16 ''ef''))]
                 Consumed))
           3 (utf16 ''hi'') None \<lparr>eventLog = [], history = []\<rparr>)) =
        pre @ Error (newError (utf16 ''socket closed'')) # post \<and>
      filter isError pre = [] \<and> responses post = []) \<and>
   history
     (snd (completeTaskStreaming
        (stubBinding Inr toolLoop
           (Iterable
              [OnChunk (TextDelta (utf16 ''ab'')),
               OnStepFinish \<lparr>stepText = utf16 ''ab'', toolCalls = [], toolResults = []\<rparr>,
               OnChunk (TextDelta (utf16 ''cd'')),
               OnError (newError (utf16 ''socket closed'')),
               OnChunk (TextDelta (utf16 ''ef''))]
              Consumed))
        3 (utf16 ''hi'') None \<lparr>eventLog = [], history = []\<rparr>)) =
     [UserMessage (utf16 ''hi'') None, AssistantMessage (utf16 ''ab'')] \<and>
   last (newEvents \<lparr>eventLog = [], history = []\<rparr>
     (snd (completeTaskStreaming
        (stubBinding Inr toolLoop
           (Iterable [OnChunk (TextDelta (utf16 ''ab''))]
              (IteratorThrows (newError (utf16 ''socket closed'')))))
        3 (utf16 ''hi'') None \<lparr>eventLog = [], history = []\<rparr>))) =
     Error (newError (utf16 ''socket closed''))"
proof -
  let ?e = "newError (utf16 ''socket closed'')"
  let ?front = "[OnChunk (TextDelta (utf16 ''ab'')),
               OnStepFinish \<lparr>stepText = utf16 ''ab'', toolCalls = [], toolResults = []\<rparr>,
               OnChunk (TextDelta (utf16 ''cd''))]"
  let ?rest = "[OnChunk (TextDelta (utf16 ''ef''))]"
  let ?sigs = "[OnChunk (TextDelta (utf16 ''ab'')),
               OnStepFinish \<lparr>stepText = utf16 ''ab'', toolCalls = [], toolResults = []\<rparr>,
               OnChunk (TextDelta (utf16 ''cd'')),
               OnError ?e,
               OnChunk (TextDelta (utf16 ''ef''))]"
  let ?c1 = "stubBinding Inr toolLoop (Iterable ?sigs Consumed)"
  let ?c2 = "stubBinding Inr toolLoop (Iterable [OnChunk (TextDelta (utf16 ''ab''))] (IteratorThrows ?e))"
  let ?s = "\<lparr>eventLog = [], history = []\<rparr>"
  let ?v = "\<lparr>eventLog = [], history = [UserMessage (utf16 ''hi'') None]\<rparr>"
  let ?fm = "[UserMessage (utf16 ''hi'') None]"
  have b1: "beforeTry ?c1 (utf16 ''hi'') None ?s = (Inr [], ?v)"
    by (simp add: stubBinding_def beforeTry_def addUserMessage_def)
  have b2: "beforeTry ?c2 (utf16 ''hi'') None ?s = (Inr [], ?v)"
    by (simp add: stubBinding_def beforeTry_def addUserMessage_def)
  have g1: "getFormattedMessages ?c1 (history ?v) = Inr ?fm \<and>
      sdk_streamText ?c1 ?fm [] 3 = Iterable ?sigs Consumed"
    by (simp add: stubBinding_def)
  have g2: "getFormattedMessages ?c2 (history ?v) = Inr ?fm \<and>
      sdk_streamText ?c2 ?fm [] 3 = Iterable [OnChunk (TextDelta (utf16 ''ab''))] (IteratorThrows ?e)"
    by (simp add: stubBinding_def)
  have p: "?sigs = ?front @ OnError ?e # ?rest \<and> reported ?e = Some ?e"
    by (simp add: reported_def newError_def)
  have q: "IteratorThrows ?e = IteratorThrows ?e \<and> asError ?e = Inr ?e"
    by (simp add: newError_def)
  note t1 = provider_throw_error_events [OF b1, of 3]
  note t2 = provider_throw_error_events [OF b2, of 3]
  note store = t1 [THEN conjunct1]
  note run1 = t1 [THEN conjunct2, THEN spec, THEN spec, THEN spec, THEN mp, OF g1]
  note run2 = t2 [THEN conjunct2, THEN spec, THEN spec, THEN spec, THEN mp, OF g2]
  note errs = run1 [THEN conjunct1]
  note pos = run1 [THEN conjunct2, THEN conjunct2, THEN spec, THEN spec, THEN spec, THEN spec, THEN mp, OF p]
  note fin = run2 [THEN conjunct2, THEN conjunct1, THEN spec, THEN spec, THEN mp, OF q]
  have w1: "filter isError (newEvents ?s (snd (completeTaskStreaming ?c1 3 (utf16 ''hi'') None ?s))) = [Error ?e]"
    using errs by (simp add: reported_def caughtFrom_def newError_def)
  have w2: "\<exists>pre post.
      newEvents ?s (snd (completeTaskStreaming ?c1 3 (utf16 ''hi'') None ?s)) = pre @ Error ?e # post \<and>
      filter isError pre = [] \<and> responses post = []"
    using pos by simp
  have w3: "history (snd (completeTaskStreaming ?c1 3 (utf16 ''hi'') None ?s)) =
      [UserMessage (utf16 ''hi'') None, AssistantMessage (utf16 ''ab'')]"
    using store by (simp add: run_defs eval_defs)
  from w1 w2 w3 fin show ?thesis
    by (intro conjI)
qed

text \<open>
  The service keeps no record of a failure. In the first run the provider fails in the
  second step after the delta \<open>abc\<close>, and the SDK reports the error and then the
  finish: \<open>onFinish\<close> flushes the accumulator, a response after the error. In the
  second run the failure arrives on both paths and is emitted twice.
\<close>

theorem error_not_last_signal_counterexample:
  "newEvents \<lparr>eventLog = [], history = []\<rparr>
     (snd (completeTaskStreaming
        (stubBinding Inr toolLoop
           (Iterable
              [OnStepFinish toolStep,
               OnChunk (TextDelta (utf16 ''abc'')),
               OnError (newError (utf16 ''socket closed'')),
               OnFinish]
              Consumed))
        3 (utf16 ''hi'') None \<lparr>eventLog = [], history = []\<rparr>)) =
     [Thinking, ToolCall (utf16 ''fs.list'') (utf16 ''{}''), ResetAccumulation,
      ToolResult (utf16 ''fs.list'') (utf16 ''[]''), Chunk (utf16 ''abc''),
      Error (newError (utf16 ''socket closed'')), Response (utf16 ''abc'')] \<and>
   newEvents \<lparr>eventLog = [], history = []\<rparr>
     (snd (completeTaskStreaming
        (stubBinding Inr toolLoop
           (Iterable [OnError (newError (utf16 ''socket closed''))]
              (IteratorThrows (newError (utf16 ''socket closed'')))))
        3 (utf16 ''hi'') None \<lparr>eventLog = [], history = []\<rparr>)) =
     [Thinking, Error (newError (utf16 ''socket closed'')),
      Error (newError (utf16 ''socket closed''))]"
  by (simp add: run_defs eval_defs)

text \<open>
  C9. \<open>resetConversation\<close> empties the history and emits \<open>conversationReset\<close>;
  calling it twice leaves the history as one call does (empty), each call emitting its
  own event. The store's \<open>reset\<close> is modelled from the spec.
\<close>

theorem resetConversation_idempotent:
  "history (resetConversation (resetConversation s)) = history (resetConversation s) \<and>
   history (resetConversation s) = [] \<and>
   newEvents s (resetConversation s) = [ConversationReset] \<and>
   newEvents s (resetConversation (resetConversation s)) = [ConversationReset, ConversationReset]"
  by (simp add: resetConversation_def reset_def emit_def newEvents_def)

theorem resetConversation_idempotent_witness:
  "history (resetConversation (resetConversation
      \<lparr>eventLog = [Thinking], history = [UserMessage (utf16 ''hi'') None]\<rparr>)) = [] \<and>
   history (resetConversation
      \<lparr>eventLog = [Thinking], history = [UserMessage (utf16 ''hi'') None]\<rparr>) = []"
  using resetConversation_idempotent
    [of "\<lparr>eventLog = [Thinking], history = [UserMessage (utf16 ''hi'') None]\<rparr>"]
  by simp

section \<open>The scenario of the specification\<close>

text \<open>
  The scenario of the specification, as a check of the model: the user asks to list
  files, the provider streams two deltas, closes the step with its text and a tool call
  (the SDK runs the tool and adds its result), and a second step answers.
\<close>

lemma list_files_scenario:
  "completeTaskStreaming
     (stubBinding Inr toolLoop
        (Iterable
           [OnChunk (TextDelta (utf16 ''I'll '')),
            OnChunk (TextDelta (utf16 ''check that.'')),
            OnStepFinish
              \<lparr>stepText = utf16 ''I'll check that.'',
               toolCalls = [\<lparr>call_toolName = utf16 ''fs.list'', call_args = utf16 ''{path:.}''\<rparr>],
               toolResults = [\<lparr>result_toolName = utf16 ''fs.list'', result_result = utf16 ''[a.txt]''\<rparr>]\<rparr>,
            OnChunk (TextDelta (utf16 ''Found a.txt'')),
            OnStepFinish \<lparr>stepText = utf16 ''Found a.txt'', toolCalls = [], toolResults = []\<rparr>,
            OnFinish]
           Consumed))
     10 (utf16 ''list files'') None \<lparr>eventLog = [], history = []\<rparr> =
   (Inr (),
    \<lparr>eventLog =
       [Thinking,
        Chunk (utf16 ''I'll ''), Chunk (utf16 ''check that.''),
        Response (utf16 ''I'll check that.''),
        ToolCall (utf16 ''fs.list'') (utf16 ''{path:.}''),
        ResetAccumulation,
        ToolResult (utf16 ''fs.list'') (utf16 ''[a.txt]''),
        Chunk (utf16 ''Found a.txt''),
        Response (utf16 ''Found a.txt'')],
     history =
       [UserMessage (utf16 ''list files'') None,
        AssistantMessage (utf16 ''I'll check that.''),
        AssistantMessage (utf16 ''Found a.txt'')]\<rparr>)"
  by (simp add: run_defs eval_defs)

end
